theory Spec2Isabelle
  imports Main "HOL-Library.AList"
begin

section \<open>JavaScript values and plain objects\<close>

text \<open>
  The plugin stores configuration values it never inspects (adapter, connection and
  model definitions, default values). They are kept as JavaScript values. Numbers are
  integers here; \<open>JFunction\<close> stands for a built-in function or object, known by name.
\<close>

datatype jsval =
    JUndefined
  | JNull
  | JBool bool
  | JNum int
  | JStr string
  | JArr "jsval list"
  | JObj "(string \<times> jsval) list"
  | JFunction string

text \<open>
  A plain object: its own enumerable properties in the order they were added, which is
  the order \<open>Object.keys\<close> lists them in (keys that are array indices apart, which an
  engine lists first). Looking a key up reads the first binding.
\<close>

type_synonym jsobj = "(string \<times> jsval) list"

text \<open>JavaScript truthiness: what \<open>!v\<close> and \<open>v || d\<close> test.\<close>

fun truthy :: "jsval \<Rightarrow> bool" where
  "truthy JUndefined = False"
| "truthy JNull = False"
| "truthy (JBool b) = b"
| "truthy (JNum n) = (n \<noteq> 0)"
| "truthy (JStr s) = (s \<noteq> [])"
| "truthy (JArr xs) = True"
| "truthy (JObj fs) = True"
| "truthy (JFunction f) = True"

text \<open>
  Every object written as a literal \<open>{}\<close> inherits from \<open>Object.prototype\<close>. A read
  \<open>obj[key]\<close> of a key that is not an own property finds these members.
\<close>

definition Object_prototype :: jsobj where
  "Object_prototype =
    [(''constructor'', JFunction ''Object''),
     (''__defineGetter__'', JFunction ''__defineGetter__''),
     (''__defineSetter__'', JFunction ''__defineSetter__''),
     (''hasOwnProperty'', JFunction ''hasOwnProperty''),
     (''__lookupGetter__'', JFunction ''__lookupGetter__''),
     (''__lookupSetter__'', JFunction ''__lookupSetter__''),
     (''isPrototypeOf'', JFunction ''isPrototypeOf''),
     (''propertyIsEnumerable'', JFunction ''propertyIsEnumerable''),
     (''toString'', JFunction ''toString''),
     (''valueOf'', JFunction ''valueOf''),
     (''__proto__'', JFunction ''Object.prototype''),
     (''toLocaleString'', JFunction ''toLocaleString'')]"

text \<open>\<open>obj[key]\<close> as a read: own property first, then the prototype, else undefined.\<close>

definition js_get :: "jsobj \<Rightarrow> string \<Rightarrow> jsval" where
  "js_get obj key =
    (case map_of obj key of
       Some v \<Rightarrow> v
     | None \<Rightarrow> (case map_of Object_prototype key of Some v \<Rightarrow> v | None \<Rightarrow> JUndefined))"

text \<open>
  \<open>obj[key] = v\<close>: replaces the own property in place or appends a new one. The key
  \<open>__proto__\<close> is the prototype accessor and creates no own property.
\<close>

definition js_set :: "jsobj \<Rightarrow> string \<Rightarrow> jsval \<Rightarrow> jsobj" where
  "js_set obj key v = (if key = ''__proto__'' then obj else AList.update key v obj)"

definition Object_keys :: "jsobj \<Rightarrow> string list" where
  "Object_keys obj = map fst obj"

section \<open>The detected Waterline version\<close>

text \<open>
  \<^verbatim>\<open>
  const semverSplit = (version) => {
      const versionParts = version.split('.');
      return { MAJOR: versionParts[0], MINOR: versionParts[1], PATCH: versionParts[2] };
  };
  \<close>
  \<open>split\<close> yields strings; an index past the end reads undefined.
\<close>

fun split_on :: "char \<Rightarrow> string \<Rightarrow> string list" where
  "split_on c [] = [[]]"
| "split_on c (x # xs) =
    (if x = c then [] # split_on c xs
     else (case split_on c xs of
             [] \<Rightarrow> [[x]]
           | p # ps \<Rightarrow> (x # p) # ps))"

definition part_at :: "string list \<Rightarrow> nat \<Rightarrow> jsval" where
  "part_at parts i = (if i < length parts then JStr (parts ! i) else JUndefined)"

record semver =
  MAJOR :: jsval
  MINOR :: jsval
  PATCH :: jsval

definition semverSplit :: "string \<Rightarrow> semver" where
  "semverSplit version =
    (let versionParts = split_on CHR ''.'' version
     in \<lparr>MAJOR = part_at versionParts 0,
         MINOR = part_at versionParts 1,
         PATCH = part_at versionParts 2\<rparr>)"

text \<open>
  \<open>v === n\<close> for a number \<open>n\<close>: strict equality never converts, so only a number can
  equal a number.
\<close>

fun strict_equals_num :: "jsval \<Rightarrow> int \<Rightarrow> bool" where
  "strict_equals_num (JNum m) n = (m = n)"
| "strict_equals_num v n = False"

text \<open>
  \<open>v >= n\<close> converts \<open>v\<close> to a number first. A string of decimal digits converts to
  its value and the empty string to 0; every other string is taken as NaN here, and a
  comparison with NaN is false.
\<close>

definition digit_of :: "char \<Rightarrow> nat option" where
  "digit_of c =
    (let n = (of_char c :: nat) in if 48 \<le> n \<and> n \<le> 57 then Some (n - 48) else None)"

fun decimal :: "nat \<Rightarrow> string \<Rightarrow> nat option" where
  "decimal acc [] = Some acc"
| "decimal acc (c # cs) =
    (case digit_of c of None \<Rightarrow> None | Some d \<Rightarrow> decimal (10 * acc + d) cs)"

fun to_number :: "jsval \<Rightarrow> int option" where
  "to_number (JNum n) = Some n"
| "to_number (JStr s) = map_option int (decimal 0 s)"
| "to_number (JBool b) = Some (if b then 1 else 0)"
| "to_number JNull = Some 0"
| "to_number v = None"

definition greater_equal_num :: "jsval \<Rightarrow> int \<Rightarrow> bool" where
  "greater_equal_num v n = (case to_number v of None \<Rightarrow> False | Some m \<Rightarrow> n \<le> m)"

section \<open>Errors\<close>

datatype kind = Adapter | Connection | Model

text \<open>
  Every failure of the source is an exception; here it is a value. \<open>Hoek.assert\<close>
  throws an error carrying the message that \<open>message\<close> renders.
\<close>

datatype error =
    ValidationError
  | ResolutionError string
  | AlreadyRegistered kind string
  | DefaultAlreadySet string
  | TeardownOnStopAlreadySet
  | TypeError

fun message :: "error \<Rightarrow> string" where
  "message (AlreadyRegistered Adapter name) =
     ''Adapter \"'' @ name @ ''\" has already been registered.''"
| "message (AlreadyRegistered Connection name) =
     ''Connection \"'' @ name @ ''\" has already been registered.''"
| "message (AlreadyRegistered Model name) =
     ''Model definition with identity \"'' @ name @ ''\" has already been registered.''"
| "message (DefaultAlreadySet key) = ''Default for \"'' @ key @ ''\" has already been set.''"
| "message TeardownOnStopAlreadySet =
     ''Dogwater's teardownOnStop option can only be specified once.''"
| "message ValidationError = ''ValidationError''"
| "message (ResolutionError path) = ''Cannot find module '' @ path"
| "message TypeError = ''TypeError''"

section \<open>The Global Collector, the scope records and the ORM engine\<close>

text \<open>
  \<^verbatim>\<open>
  rootState.collector = {
      adapters: {}, connections: {}, models: {}, defaults: {},
      teardownOnStop: null // Not set, effectively defaults true
  };
  \<close>
  \<open>connections\<close> is \<open>None\<close> when the property holds undefined, \<open>teardownOnStop\<close> is
  \<open>None\<close> when it holds null, and \<open>datastores\<close> is \<open>None\<close> while the property is absent.
\<close>

record collector =
  adapters :: jsobj
  connections :: "jsobj option"
  models :: jsobj
  defaults :: jsobj
  teardownOnStop :: "bool option"
  datastores :: "jsobj option"

text \<open>
  The ORM engine is the package \<open>waterline\<close>, an external collaborator. What the
  plugin sees of it: the collection definitions handed over by \<open>loadCollection\<close>, the
  configuration \<open>initialize\<close> received, the property \<open>collections\<close> (undefined until
  initialization has produced it), and how often \<open>teardown\<close> was invoked.
\<close>

record orm_config =
  orm_adapters :: jsobj
  orm_connections :: "jsobj option"
  orm_defaults :: jsobj

record orm =
  loaded :: "jsval list"
  orm_collections :: "jsobj option"
  initialized_with :: "orm_config option"
  teardowns :: nat

definition new_Waterline :: orm where
  "new_Waterline =
    \<lparr>loaded = [], orm_collections = None, initialized_with = None, teardowns = 0\<rparr>"

text \<open>
  What initialization computes is the engine's business: a function from the loaded
  definitions and the configuration to the collections it produces, or \<open>None\<close> when it
  fails.
\<close>

type_synonym engine = "jsval list \<Rightarrow> orm_config \<Rightarrow> jsobj option"

text \<open>
  A scope is a realm of the host server: the root's, or a plugin's. \<open>internals.state\<close>
  gives each realm one state object; its \<open>models\<close> property is the Scope Record
  (\<open>None\<close> while it is undefined). The root's state object also holds \<open>setup\<close> and the
  collector. Before the root is set up neither exists; \<open>collector\<close> is then a
  placeholder that nothing reads.
\<close>

datatype realm = Root | Plugin string

record world =
  is_setup :: bool
  collector :: collector
  realm_models :: "realm \<Rightarrow> string list option"
  waterline :: orm

definition empty_collector :: collector where
  "empty_collector =
    \<lparr>adapters = [], connections = Some [], models = [], defaults = [],
     teardownOnStop = None, datastores = None\<rparr>"

definition initial_world :: world where
  "initial_world =
    \<lparr>is_setup = False, collector = empty_collector, realm_models = (\<lambda>r. None),
     waterline = new_Waterline\<rparr>"

text \<open>
  \<^verbatim>\<open>
  if (WaterlineVersion.MAJOR === 0 &&
     WaterlineVersion.MINOR >= 13) {
    // rename property 'connections' to 'datastores'
      rootState.collector.datastores = rootState.collector.connections;
      rootState.collector.connections = undefined;
  }
  \<close>
\<close>

definition renames_connections :: "semver \<Rightarrow> bool" where
  "renames_connections v = (strict_equals_num (MAJOR v) 0 \<and> greater_equal_num (MINOR v) 13)"

definition new_collector :: "semver \<Rightarrow> collector" where
  "new_collector WaterlineVersion =
    (let c = empty_collector
     in if renames_connections WaterlineVersion
        then c\<lparr>datastores := connections c, connections := None\<rparr>
        else c)"

section \<open>Configuration and its validation\<close>

text \<open>
  The argument of \<open>server.dogwater\<close>: an array of models, or an object whose
  properties \<open>adapters\<close>, \<open>connections\<close> and \<open>models\<close> may each be absent.
\<close>

record config_object =
  cfg_adapters :: "jsobj option"
  cfg_connections :: "jsobj option"
  cfg_models :: "jsval option"

datatype config = ConfigArray "jsval list" | ConfigObject config_object

text \<open>The plugin's registration options.\<close>

record plugin_options =
  opt_adapters :: "jsobj option"
  opt_connections :: "jsobj option"
  opt_models :: "jsval option"
  opt_defaults :: "jsobj option"
  opt_teardownOnStop :: "bool option"

definition is_object :: "jsval \<Rightarrow> bool" where
  "is_object v = (case v of JObj fs \<Rightarrow> True | _ \<Rightarrow> False)"

definition is_string :: "jsval \<Rightarrow> bool" where
  "is_string v = (case v of JStr s \<Rightarrow> True | _ \<Rightarrow> False)"

definition is_model :: "jsval \<Rightarrow> bool" where
  "is_model v =
    (case v of
       JObj fs \<Rightarrow> (case map_of fs ''identity'' of Some (JStr s) \<Rightarrow> True | _ \<Rightarrow> False)
     | _ \<Rightarrow> False)"

definition is_models :: "jsval \<Rightarrow> bool" where
  "is_models v = (case v of JArr ms \<Rightarrow> list_all is_model ms | _ \<Rightarrow> False)"

text \<open>
  Modelled from the spec: the schemas \<open>Schema.dogwater\<close> and \<open>Schema.plugin\<close> of
  \<open>./schema\<close>, a file that is not among the sources. The spec: adapters map a name to
  an adapter definition (object) or, in the plugin options, to an external reference
  (string), resolved before the merge; connections map a name to a connection
  definition; models are a sequence of model definitions, each with an \<open>identity\<close>, or in
  the plugin options a string reference; a model without \<open>identity\<close> or a value of the
  wrong kind fails validation. The spec names no kind for a connection definition; it
  is taken to be an object, as an adapter definition is, and at the merge every adapter
  is a definition, the references having been resolved. \<open>teardownOnStop\<close> is a boolean
  by its type here.
\<close>

definition Schema_config_object :: "config_object \<Rightarrow> bool" where
  "Schema_config_object c =
    ((case cfg_adapters c of None \<Rightarrow> True | Some a \<Rightarrow> list_all (\<lambda>(name, v). is_object v) a) \<and>
     (case cfg_connections c of None \<Rightarrow> True | Some a \<Rightarrow> list_all (\<lambda>(name, v). is_object v) a) \<and>
     (case cfg_models c of None \<Rightarrow> True | Some ms \<Rightarrow> is_models ms))"

definition Schema_dogwater :: "config \<Rightarrow> bool" where
  "Schema_dogwater config =
    (case config of
       ConfigArray ms \<Rightarrow> list_all is_model ms
     | ConfigObject c \<Rightarrow> Schema_config_object c)"

definition Schema_plugin :: "plugin_options \<Rightarrow> bool" where
  "Schema_plugin options =
    ((case opt_adapters options of
        None \<Rightarrow> True
      | Some a \<Rightarrow> list_all (\<lambda>(name, v). is_object v \<or> is_string v) a) \<and>
     (case opt_connections options of
        None \<Rightarrow> True
      | Some a \<Rightarrow> list_all (\<lambda>(name, v). is_object v) a) \<and>
     (case opt_models options of None \<Rightarrow> True | Some ms \<Rightarrow> is_models ms \<or> is_string ms))"

text \<open>
  \<open>model.identity\<close> of a validated model, which is a string. Nothing else reaches the
  merge: validation comes first.
\<close>

fun identity :: "jsval \<Rightarrow> string" where
  "identity (JObj fs) = (case map_of fs ''identity'' of Some (JStr s) \<Rightarrow> s | _ \<Rightarrow> [])"
| "identity v = []"

section \<open>The merge: \<open>internals.dogwater\<close>\<close>

text \<open>
  The four collecting loops of the source have one shape:
  \<^verbatim>\<open>
  adapterNames.forEach((name) => {
      Hoek.assert(!collector.adapters[name], `Adapter "${name}" has already been registered.`);
      collector.adapters[name] = config.adapters[name];
  });
  \<close>
  \<open>store_each\<close> runs over the pairs of a key and the value to store. It mutates the
  target as it goes: when the assertion throws, the entries stored before it stay.
  \<open>err\<close> makes the error of the failed assertion from the key.
\<close>

fun store_each ::
  "(string \<Rightarrow> error) \<Rightarrow> (string \<times> jsval) list \<Rightarrow> jsobj \<Rightarrow> jsobj \<times> error option" where
  "store_each err [] target = (target, None)"
| "store_each err ((name, v) # rest) target =
    (if truthy (js_get target name) then (target, Some (err name))
     else store_each err rest (js_set target name v))"

text \<open>The pairs \<open>(name, obj[name])\<close> for \<open>name\<close> in \<open>Object.keys(obj)\<close>.\<close>

definition entries_of :: "jsobj \<Rightarrow> (string \<times> jsval) list" where
  "entries_of obj = map (\<lambda>name. (name, js_get obj name)) (Object_keys obj)"

text \<open>Running a step only when the steps before it did not throw.\<close>

fun and_then :: "'s \<times> error option \<Rightarrow> ('s \<Rightarrow> 's \<times> error option) \<Rightarrow> 's \<times> error option" where
  "and_then (s, None) f = f s"
| "and_then (s, Some e) f = (s, Some e)"

definition collect_adapters :: "jsobj \<Rightarrow> collector \<Rightarrow> collector \<times> error option" where
  "collect_adapters config_adapters c =
    (case store_each (AlreadyRegistered Adapter) (entries_of config_adapters) (adapters c) of
       (target, r) \<Rightarrow> (c\<lparr>adapters := target\<rparr>, r))"

text \<open>
  \<open>collector.connections[name]\<close> throws a TypeError when \<open>collector.connections\<close> is
  undefined; with no connection name the loop body never runs.
\<close>

definition collect_connections :: "jsobj \<Rightarrow> collector \<Rightarrow> collector \<times> error option" where
  "collect_connections config_connections c =
    (case connections c of
       None \<Rightarrow> (if Object_keys config_connections = [] then (c, None) else (c, Some TypeError))
     | Some conns \<Rightarrow>
         (case store_each (AlreadyRegistered Connection) (entries_of config_connections) conns of
            (target, r) \<Rightarrow> (c\<lparr>connections := Some target\<rparr>, r)))"

text \<open>
  \<^verbatim>\<open>
  modelIds.forEach((id, index) => {
      Hoek.assert(!collector.models[id], `Model definition with identity "${id}" has already been registered.`);
      collector.models[id] = config.models[index];
  });
  \<close>
\<close>

definition collect_models :: "jsval list \<Rightarrow> collector \<Rightarrow> collector \<times> error option" where
  "collect_models config_models c =
    (let modelIds = map identity config_models
     in case store_each (AlreadyRegistered Model) (zip modelIds config_models) (models c) of
          (target, r) \<Rightarrow> (c\<lparr>models := target\<rparr>, r))"

text \<open>
  \<^verbatim>\<open>
  // Array of models, coerce to config
  if (Array.isArray(config)) {
      config = { models: config };
  }
  // Apply empty defaults
  config.adapters = config.adapters || {};
  config.connections = config.connections || {};
  config.models = config.models || [];
  \<close>
\<close>

definition coerce :: "config \<Rightarrow> config_object" where
  "coerce config =
    (case config of
       ConfigArray ms \<Rightarrow>
         \<lparr>cfg_adapters = None, cfg_connections = None, cfg_models = Some (JArr ms)\<rparr>
     | ConfigObject c \<Rightarrow> c)"

definition adapters_of :: "config \<Rightarrow> jsobj" where
  "adapters_of config = (case cfg_adapters (coerce config) of None \<Rightarrow> [] | Some a \<Rightarrow> a)"

definition connections_of :: "config \<Rightarrow> jsobj" where
  "connections_of config = (case cfg_connections (coerce config) of None \<Rightarrow> [] | Some a \<Rightarrow> a)"

definition models_of :: "config \<Rightarrow> jsval list" where
  "models_of config = (case cfg_models (coerce config) of Some (JArr ms) \<Rightarrow> ms | _ \<Rightarrow> [])"

definition merge :: "config \<Rightarrow> collector \<Rightarrow> collector \<times> error option" where
  "merge config c =
    and_then (and_then (collect_adapters (adapters_of config) c)
                (collect_connections (connections_of config)))
      (collect_models (models_of config))"

text \<open>
  \<open>internals.dogwater\<close>, called as \<open>server.dogwater(config)\<close> with \<open>this\<close> the server of
  some realm. \<open>Joi.attempt\<close> throws on an invalid configuration before anything is
  touched. The collector keeps what the loops stored even when one of them throws; the
  Scope Record is extended only when none did:
  \<^verbatim>\<open>
  // If all went well, track which models belong to which realms
  const state = internals.state(this);
  state.models = (state.models || []).concat(modelIds);
  \<close>
\<close>

definition dogwater :: "config \<Rightarrow> realm \<Rightarrow> world \<Rightarrow> world \<times> error option" where
  "dogwater config this w =
    (if \<not> Schema_dogwater config then (w, Some ValidationError)
     else
       (case merge config (collector w) of
          (c, Some e) \<Rightarrow> (w\<lparr>collector := c\<rparr>, Some e)
        | (c, None) \<Rightarrow>
            (let modelIds = map identity (models_of config);
                 state_models = (case realm_models w this of None \<Rightarrow> [] | Some ms \<Rightarrow> ms)
             in (w\<lparr>collector := c,
                   realm_models := (realm_models w)(this := Some (state_models @ modelIds))\<rparr>,
                 None))))"

section \<open>Plugin registration: \<open>exports.register\<close>\<close>

text \<open>
  \<^verbatim>\<open>
  Object.keys(defaults).forEach((key) => {
      Hoek.assert(!collector.defaults[key], `Default for "${key}" has already been set.`);
      collector.defaults[key] = defaults[key];
  });
  \<close>
\<close>

definition set_defaults :: "plugin_options \<Rightarrow> collector \<Rightarrow> collector \<times> error option" where
  "set_defaults options c =
    (let defaults_given = (case opt_defaults options of None \<Rightarrow> [] | Some d \<Rightarrow> d)
     in case store_each DefaultAlreadySet (entries_of defaults_given) (defaults c) of
          (target, r) \<Rightarrow> (c\<lparr>defaults := target\<rparr>, r))"

text \<open>
  \<^verbatim>\<open>
  if (typeof options.teardownOnStop !== 'undefined') {
      Hoek.assert(collector.teardownOnStop === null, 'Dogwater\'s teardownOnStop option can only be specified once.');
      collector.teardownOnStop = options.teardownOnStop;
  }
  \<close>
\<close>

definition set_teardownOnStop :: "plugin_options \<Rightarrow> collector \<Rightarrow> collector \<times> error option" where
  "set_teardownOnStop options c =
    (case opt_teardownOnStop options of
       None \<Rightarrow> (c, None)
     | Some b \<Rightarrow>
         (if teardownOnStop c = None then (c\<lparr>teardownOnStop := Some b\<rparr>, None)
          else (c, Some TeardownOnStopAlreadySet)))"

text \<open>
  \<open>internals.registrationConfig\<close>: a shallow copy of the options without \<open>defaults\<close> and
  \<open>teardownOnStop\<close>, in which a string for \<open>models\<close> and every string among the
  adapters is replaced by what \<open>require\<close> loads. What the host process supplies is a
  parameter: the version in the package file of \<open>waterline\<close>, \<open>require\<close> (\<open>None\<close> where
  loading throws) and \<open>Path.resolve\<close> against the working directory.
  \<open>Path.isAbsolute\<close> is the POSIX one.
\<close>

record host =
  waterline_package_version :: string
  require :: "string \<Rightarrow> jsval option"
  Path_resolve_cwd :: "string \<Rightarrow> string"

text \<open>
  \<^verbatim>\<open>const WaterlineVersion = semverSplit(require('waterline/package.json').version);\<close>
\<close>

definition WaterlineVersion :: "host \<Rightarrow> semver" where
  "WaterlineVersion h = semverSplit (waterline_package_version h)"

definition Path_isAbsolute :: "string \<Rightarrow> bool" where
  "Path_isAbsolute path = (case path of [] \<Rightarrow> False | c # cs \<Rightarrow> c = CHR ''/'')"

definition resolve_models :: "host \<Rightarrow> jsval option \<Rightarrow> error + jsval option" where
  "resolve_models h ms =
    (case ms of
       Some (JStr path) \<Rightarrow>
         (let file = (if Path_isAbsolute path then path else Path_resolve_cwd h path)
          in case require h file of
               None \<Rightarrow> Inl (ResolutionError file)
             | Some loaded_models \<Rightarrow> Inr (Some loaded_models))
     | _ \<Rightarrow> Inr ms)"

fun resolve_adapters :: "host \<Rightarrow> string list \<Rightarrow> jsobj \<Rightarrow> error + jsobj" where
  "resolve_adapters h [] obj = Inr obj"
| "resolve_adapters h (name # names) obj =
    (case js_get obj name of
       JStr path \<Rightarrow>
         (case require h path of
            None \<Rightarrow> Inl (ResolutionError path)
          | Some adapter \<Rightarrow> resolve_adapters h names (js_set obj name adapter))
     | _ \<Rightarrow> resolve_adapters h names obj)"

definition registrationConfig :: "host \<Rightarrow> plugin_options \<Rightarrow> error + config_object" where
  "registrationConfig h options =
    (case resolve_models h (opt_models options) of
       Inl e \<Rightarrow> Inl e
     | Inr ms \<Rightarrow>
         (case opt_adapters options of
            None \<Rightarrow>
              Inr \<lparr>cfg_adapters = None, cfg_connections = opt_connections options,
                   cfg_models = ms\<rparr>
          | Some a \<Rightarrow>
              (case resolve_adapters h (Object_keys a) a of
                 Inl e \<Rightarrow> Inl e
               | Inr a' \<Rightarrow>
                   Inr \<lparr>cfg_adapters = Some a', cfg_connections = opt_connections options,
                        cfg_models = ms\<rparr>)))"

text \<open>
  The first registration sets the root up: it creates the collector and the ORM
  engine, and decorates the server with \<open>dogwater\<close> and \<open>collections\<close>.
\<close>

definition set_up :: "host \<Rightarrow> world \<Rightarrow> world" where
  "set_up h w =
    (if \<not> is_setup w
     then w\<lparr>collector := new_collector (WaterlineVersion h), waterline := new_Waterline,
            is_setup := True\<rparr>
     else w)"

text \<open>
  \<open>exports.register\<close>. The merge is \<open>server.root.dogwater(config)\<close>: \<open>this\<close> is the root
  server, so the models of the plugin options go to the root's Scope Record.
\<close>

definition register :: "host \<Rightarrow> plugin_options \<Rightarrow> world \<Rightarrow> world \<times> error option" where
  "register h options w =
    (if \<not> Schema_plugin options then (w, Some ValidationError)
     else
       (let w1 = set_up h w
        in case and_then (set_defaults options (collector w1)) (set_teardownOnStop options) of
             (c, Some e) \<Rightarrow> (w1\<lparr>collector := c\<rparr>, Some e)
           | (c, None) \<Rightarrow>
               (case registrationConfig h options of
                  Inl e \<Rightarrow> (w1\<lparr>collector := c\<rparr>, Some e)
                | Inr config \<Rightarrow> dogwater (ConfigObject config) Root (w1\<lparr>collector := c\<rparr>))))"

text \<open>
  \<open>server.dogwater\<close> exists once the root is set up; calling it before is calling
  undefined, a TypeError.
\<close>

definition server_dogwater :: "config \<Rightarrow> realm \<Rightarrow> world \<Rightarrow> world \<times> error option" where
  "server_dogwater config this w =
    (if is_setup w then dogwater config this w else (w, Some TypeError))"

section \<open>Start and stop\<close>

text \<open>
  \<^verbatim>\<open>
  Object.keys(collector.models).forEach((id) => {
      const model = collector.models[id];
      const modelExtended = Waterline.Collection.extend(model);
      waterline.loadCollection(modelExtended);
  });
  const config = {
      adapters: collector.adapters,
      connections: collector.connections,
      defaults: collector.defaults
  };
  waterline.initialize(config, next);
  \<close>
  The collection definition made of a model is the engine's; here it is the model.
\<close>

definition loadCollection :: "jsval \<Rightarrow> orm \<Rightarrow> orm" where
  "loadCollection modelExtended wl = wl\<lparr>loaded := loaded wl @ [modelExtended]\<rparr>"

definition initialize :: "engine \<Rightarrow> world \<Rightarrow> world" where
  "initialize eng w =
    (let c = collector w;
         wl = fold (\<lambda>id. loadCollection (js_get (models c) id)) (Object_keys (models c))
                (waterline w);
         config = \<lparr>orm_adapters = adapters c, orm_connections = connections c,
                   orm_defaults = defaults c\<rparr>
     in w\<lparr>waterline := wl\<lparr>initialized_with := Some config,
                            orm_collections := eng (loaded wl) config\<rparr>\<rparr>)"

text \<open>
  \<^verbatim>\<open>
  // Do not teardown if specifically ask not to
  if (collector.teardownOnStop === false) {
      return next();
  }
  return server.waterline.teardown(next);
  \<close>
\<close>

definition teardown :: "orm \<Rightarrow> orm" where
  "teardown wl = wl\<lparr>teardowns := Suc (teardowns wl)\<rparr>"

definition stop :: "world \<Rightarrow> world" where
  "stop w =
    (if teardownOnStop (collector w) = Some False then w
     else w\<lparr>waterline := teardown (waterline w)\<rparr>)"

section \<open>The collections accessor\<close>

text \<open>
  \<^verbatim>\<open>
  return function (all) {
      const waterline = serverFrom(this).waterline;
      if (!waterline.collections) {
          return {};
      }
      if (all) {
          return waterline.collections;
      }
      const collections = {};
      const models = Hoek.reach(this, `${realmPath}.plugins.dogwater.models`) || [];
      for (let i = 0; i < models.length; ++i) {
          collections[models[i]] = waterline.collections[models[i]];
      }
      return collections;
  };
  \<close>
  The server decoration and the request decoration differ only in how they reach the
  server and the realm; \<open>this\<close> is the realm they reach.
\<close>

definition collections :: "bool \<Rightarrow> realm \<Rightarrow> world \<Rightarrow> jsobj" where
  "collections all this w =
    (case orm_collections (waterline w) of
       None \<Rightarrow> []
     | Some waterline_collections \<Rightarrow>
         (if all then waterline_collections
          else
            (let scope_models = (case realm_models w this of None \<Rightarrow> [] | Some ms \<Rightarrow> ms)
             in fold (\<lambda>id obj. js_set obj id (js_get waterline_collections id)) scope_models [])))"

section \<open>Sequences of registrations\<close>

text \<open>
  A registration is the plugin registered with options, or \<open>server.dogwater(config)\<close>
  called on the server of a realm. A registration that throws leaves the state it had
  reached; the next one runs from there.
\<close>

datatype registration = RegisterPlugin plugin_options | CallDogwater realm config

fun perform :: "host \<Rightarrow> registration \<Rightarrow> world \<Rightarrow> world \<times> error option" where
  "perform h (RegisterPlugin options) w = register h options w"
| "perform h (CallDogwater this config) w = server_dogwater config this w"

fun run :: "host \<Rightarrow> registration list \<Rightarrow> world \<Rightarrow> world" where
  "run h [] w = w"
| "run h (r # rs) w = run h rs (fst (perform h r w))"

fun outcomes :: "host \<Rightarrow> registration list \<Rightarrow> world \<Rightarrow> error option list" where
  "outcomes h [] w = []"
| "outcomes h (r # rs) w = snd (perform h r w) # outcomes h rs (fst (perform h r w))"

text \<open>The realm a registration records its models under, and the fragment it merges.\<close>

fun scope_of :: "registration \<Rightarrow> realm" where
  "scope_of (RegisterPlugin options) = Root"
| "scope_of (CallDogwater this config) = this"

fun fragment_of :: "host \<Rightarrow> registration \<Rightarrow> config option" where
  "fragment_of h (RegisterPlugin options) =
    (case registrationConfig h options of Inl e \<Rightarrow> None | Inr c \<Rightarrow> Some (ConfigObject c))"
| "fragment_of h (CallDogwater this config) = Some config"

definition identities_of :: "host \<Rightarrow> registration \<Rightarrow> string list" where
  "identities_of h r =
    (case fragment_of h r of None \<Rightarrow> [] | Some config \<Rightarrow> map identity (models_of config))"

section \<open>Notions of the statements\<close>

text \<open>
  What the collector holds under a key, what a fragment supplies for each kind, and a
  realm's Scope Record read as a list.
\<close>

definition stored :: "kind \<Rightarrow> collector \<Rightarrow> string \<Rightarrow> jsval option" where
  "stored k c =
    (case k of
       Adapter \<Rightarrow> map_of (adapters c)
     | Connection \<Rightarrow> (case connections c of None \<Rightarrow> (\<lambda>name. None) | Some conns \<Rightarrow> map_of conns)
     | Model \<Rightarrow> map_of (models c))"

definition fragment :: "kind \<Rightarrow> config \<Rightarrow> (string \<times> jsval) list" where
  "fragment k config =
    (case k of
       Adapter \<Rightarrow> entries_of (adapters_of config)
     | Connection \<Rightarrow> entries_of (connections_of config)
     | Model \<Rightarrow> zip (map identity (models_of config)) (models_of config))"

definition scope_record :: "world \<Rightarrow> realm \<Rightarrow> string list" where
  "scope_record w r = (case realm_models w r of None \<Rightarrow> [] | Some ms \<Rightarrow> ms)"

text \<open>
  The state of a collector that registrations build: \<open>connections\<close> is an object, every
  stored definition is an object, every stored model sits under its own identity, and
  no object has \<open>__proto__\<close> as an own key. In such a world every Scope Record
  lists keys of the collector's models, the engine has not been initialized, and before
  the root is set up nothing is recorded.
\<close>

definition clean :: "jsobj \<Rightarrow> bool" where
  "clean obj = (list_all (\<lambda>(key, v). is_object v) obj \<and> ''__proto__'' \<notin> fst ` set obj)"

definition sound_collector :: "collector \<Rightarrow> bool" where
  "sound_collector c =
    (clean (adapters c) \<and>
     (case connections c of None \<Rightarrow> False | Some conns \<Rightarrow> clean conns) \<and>
     clean (models c) \<and>
     list_all (\<lambda>(key, m). is_model m \<and> identity m = key) (models c))"

definition sound :: "world \<Rightarrow> bool" where
  "sound w =
    (sound_collector (collector w) \<and>
     (is_setup w \<or> collector w = empty_collector \<and> realm_models w = (\<lambda>r. None)) \<and>
     (\<forall>r. set (scope_record w r) \<subseteq> fst ` set (models (collector w))) \<and>
     orm_collections (waterline w) = None \<and> loaded (waterline w) = [])"

text \<open>
  The entries the collector holds for a kind, in order; the entries a sequence of
  \<open>server.dogwater\<close> calls supplies for a kind, in order; and the keys that every plain
  object inherits.
\<close>

definition entries :: "kind \<Rightarrow> collector \<Rightarrow> jsobj" where
  "entries k c =
    (case k of
       Adapter \<Rightarrow> adapters c
     | Connection \<Rightarrow> (case connections c of None \<Rightarrow> [] | Some conns \<Rightarrow> conns)
     | Model \<Rightarrow> models c)"

definition supplied :: "kind \<Rightarrow> (realm \<times> config) list \<Rightarrow> (string \<times> jsval) list" where
  "supplied k calls = concat (map (\<lambda>(this, config). fragment k config) calls)"

definition inherited :: "string \<Rightarrow> bool" where
  "inherited key = (key \<in> fst ` set Object_prototype)"

text \<open>A registration that does not supply \<open>teardownOnStop\<close>.\<close>

fun leaves_teardownOnStop :: "registration \<Rightarrow> bool" where
  "leaves_teardownOnStop (RegisterPlugin options) = (opt_teardownOnStop options = None)"
| "leaves_teardownOnStop (CallDogwater this config) = True"

text \<open>The three loops of the merge, each on its own target.\<close>

definition merged_adapters :: "config \<Rightarrow> collector \<Rightarrow> jsobj \<times> error option" where
  "merged_adapters config c =
     store_each (AlreadyRegistered Adapter) (fragment Adapter config) (adapters c)"

definition merged_connections :: "config \<Rightarrow> jsobj \<Rightarrow> jsobj \<times> error option" where
  "merged_connections config conns =
     store_each (AlreadyRegistered Connection) (fragment Connection config) conns"

definition merged_models :: "config \<Rightarrow> collector \<Rightarrow> jsobj \<times> error option" where
  "merged_models config c =
     store_each (AlreadyRegistered Model) (fragment Model config) (models c)"

text \<open>The options stage touches \<open>defaults\<close> and \<open>teardownOnStop\<close> only.\<close>

definition options_stage :: "plugin_options \<Rightarrow> collector \<Rightarrow> collector \<times> error option" where
  "options_stage options c = and_then (set_defaults options c) (set_teardownOnStop options)"

section \<open>Example inputs\<close>

definition example_host :: host where
  "example_host =
    \<lparr>waterline_package_version = ''0.13.0'', require = (\<lambda>path. None),
     Path_resolve_cwd = (\<lambda>path. path)\<rparr>"

definition no_options :: plugin_options where
  "no_options =
    \<lparr>opt_adapters = None, opt_connections = None, opt_models = None, opt_defaults = None,
     opt_teardownOnStop = None\<rparr>"

definition model_named :: "string \<Rightarrow> jsval" where
  "model_named name = JObj [(''identity'', JStr name)]"

text \<open>The state after the plugin was registered once, with no options.\<close>

definition ready_world :: world where
  "ready_world = fst (register example_host no_options initial_world)"

text \<open>The state after the plugin was registered once, with \<open>teardownOnStop: false\<close>.\<close>

definition quiet_options :: plugin_options where
  "quiet_options = no_options\<lparr>opt_teardownOnStop := Some False\<rparr>"

definition quiet_world :: world where
  "quiet_world = fst (register example_host quiet_options initial_world)"

text \<open>Options that set a default and \<open>teardownOnStop\<close> together.\<close>

definition safe_options :: plugin_options where
  "safe_options =
    no_options\<lparr>opt_defaults := Some [(''migrate'', JStr ''safe'')],
               opt_teardownOnStop := Some True\<rparr>"

text \<open>Two fragments that share the model identity \<open>user\<close>.\<close>

definition users_config :: config where
  "users_config =
    ConfigObject \<lparr>cfg_adapters = Some [(''memory'', JObj [])],
                   cfg_connections = Some [(''db'', JObj [(''adapter'', JStr ''memory'')])],
                   cfg_models = Some (JArr [model_named ''user'', model_named ''session''])\<rparr>"

definition clash_config :: config where
  "clash_config =
    ConfigObject \<lparr>cfg_adapters = Some [(''disk'', JObj [])],
                   cfg_connections = None,
                   cfg_models = Some (JArr [model_named ''product'', model_named ''user''])\<rparr>"

text \<open>
  Scope \<open>a\<close> registers the models \<open>user\<close> and \<open>session\<close>, scope \<open>b\<close> registers
  \<open>product\<close>; the engine of the example keys each collection by the identity of its
  definition.
\<close>

definition two_scopes :: "registration list" where
  "two_scopes =
    [RegisterPlugin no_options,
     CallDogwater (Plugin ''a'') (ConfigArray [model_named ''user'', model_named ''session'']),
     CallDogwater (Plugin ''b'') (ConfigArray [model_named ''product''])]"

definition keyed_engine :: engine where
  "keyed_engine defs config = Some (map (\<lambda>m. (identity m, m)) defs)"

definition started_world :: world where
  "started_world = initialize keyed_engine (run example_host two_scopes initial_world)"

text \<open>A fragment that shares no key with \<open>users_config\<close>.\<close>

definition products_config :: config where
  "products_config =
    ConfigObject \<lparr>cfg_adapters = Some [(''disk'', JObj [])],
                   cfg_connections = None,
                   cfg_models = Some (JArr [model_named ''product''])\<rparr>"

definition disjoint_calls :: "(realm \<times> config) list" where
  "disjoint_calls = [(Plugin ''a'', users_config), (Plugin ''b'', products_config)]"

text \<open>
  A fragment that reuses the model identity \<open>user\<close> and names an adapter \<open>toString\<close>.
\<close>

definition shadowed_config :: config where
  "shadowed_config =
    ConfigObject \<lparr>cfg_adapters = Some [(''toString'', JObj [])],
                   cfg_connections = None,
                   cfg_models = Some (JArr [model_named ''user''])\<rparr>"

text \<open>
  Options that set one default; and options whose models are a path that \<open>require\<close>
  cannot load.
\<close>

definition migrating_options :: plugin_options where
  "migrating_options = no_options\<lparr>opt_defaults := Some [(''migrate'', JStr ''safe'')]\<rparr>"

definition unresolved_options :: plugin_options where
  "unresolved_options =
    no_options\<lparr>opt_models := Some (JStr ''./models''), opt_teardownOnStop := Some True\<rparr>"

section \<open>Objects and the collecting loop\<close>

lemma map_of_js_set_other: "key' \<noteq> key \<Longrightarrow> map_of (js_set obj key v) key' = map_of obj key'"
  by (simp add: js_set_def update_conv')

lemma js_get_js_set_other: "key' \<noteq> key \<Longrightarrow> js_get (js_set obj key v) key' = js_get obj key'"
  by (simp add: js_get_def map_of_js_set_other)

lemma set_update_subset: "set (AList.update key v obj) \<subseteq> insert (key, v) (set obj)"
  by (induction obj) (auto split: if_splits)

lemma set_js_set_subset: "set (js_set obj key v) \<subseteq> insert (key, v) (set obj)"
  using set_update_subset[of key v obj] by (auto simp: js_set_def)

lemma keys_js_set:
  "fst ` set (js_set obj key v) =
     (if key = ''__proto__'' then fst ` set obj else insert key (fst ` set obj))"
  by (simp add: js_set_def dom_update)

lemma update_fresh: "key \<notin> fst ` set obj \<Longrightarrow> AList.update key v obj = obj @ [(key, v)]"
  by (induction obj) auto

lemma proto_truthy: "map_of Object_prototype key = Some v \<Longrightarrow> truthy v"
  by (auto simp: Object_prototype_def split: if_splits)

lemma js_get_fresh:
  "key \<notin> fst ` set obj \<Longrightarrow> key \<notin> fst ` set Object_prototype \<Longrightarrow> js_get obj key = JUndefined"
  by (simp add: js_get_def map_of_eq_None_iff[THEN iffD2])

lemma falsy_not_own:
  "\<not> truthy (js_get obj key) \<Longrightarrow> key \<in> fst ` set obj \<or> key \<notin> fst ` set Object_prototype"
proof (cases "map_of obj key")
  case None
  assume falsy: "\<not> truthy (js_get obj key)"
  have "map_of Object_prototype key = None"
  proof (cases "map_of Object_prototype key")
    case (Some v)
    then show ?thesis using falsy None proto_truthy[OF Some] by (simp add: js_get_def)
  qed simp
  then show ?thesis by (simp add: map_of_eq_None_iff)
next
  case (Some v)
  then have "key \<in> fst ` set obj" by (metis map_of_eq_None_iff option.distinct(1))
  then show ?thesis by simp
qed

lemma store_each_keeps:
  "map_of t key = Some v \<Longrightarrow> truthy v \<Longrightarrow> map_of (fst (store_each err es t)) key = Some v"
proof (induction es arbitrary: t)
  case Nil
  then show ?case by simp
next
  case (Cons e es)
  obtain name x where e: "e = (name, x)" by (cases e)
  show ?case
  proof (cases "truthy (js_get t name)")
    case True
    then show ?thesis using Cons.prems e by simp
  next
    case False
    then have "name \<noteq> key" using Cons.prems by (auto simp: js_get_def)
    then have "map_of (js_set t name x) key = Some v"
      using Cons.prems by (simp add: map_of_js_set_other)
    then show ?thesis using Cons.IH Cons.prems(2) False e by simp
  qed
qed

lemma store_each_error:
  "snd (store_each err es t) = Some e \<Longrightarrow> \<exists>key \<in> fst ` set es. e = err key"
  by (induction err es t rule: store_each.induct) (auto split: if_splits)

lemma store_each_fails:
  "truthy (js_get t key) \<Longrightarrow> key \<in> fst ` set es \<Longrightarrow> snd (store_each err es t) \<noteq> None"
proof (induction es arbitrary: t)
  case Nil
  then show ?case by simp
next
  case (Cons e es)
  obtain name x where e: "e = (name, x)" by (cases e)
  show ?case
  proof (cases "truthy (js_get t name)")
    case True
    then show ?thesis using e by simp
  next
    case False
    then have ne: "key \<noteq> name" using Cons.prems(1) by auto
    then have "truthy (js_get (js_set t name x) key)"
      using Cons.prems(1) by (simp add: js_get_js_set_other)
    moreover have "key \<in> fst ` set es" using Cons.prems(2) ne e by auto
    ultimately show ?thesis using Cons.IH False e by simp
  qed
qed

lemma store_each_fresh:
  "distinct (map fst es) \<Longrightarrow>
   \<forall>key \<in> fst ` set es. key \<notin> fst ` set t \<and> key \<notin> fst ` set Object_prototype \<Longrightarrow>
   store_each err es t = (t @ es, None)"
proof (induction es arbitrary: t)
  case Nil
  then show ?case by simp
next
  case (Cons e es)
  obtain name x where e: "e = (name, x)" by (cases e)
  have fresh: "name \<notin> fst ` set t" "name \<notin> fst ` set Object_prototype"
    using Cons.prems(2) e by auto
  then have undef: "js_get t name = JUndefined" by (rule js_get_fresh)
  have "name \<noteq> ''__proto__''" using fresh(2) by (auto simp: Object_prototype_def)
  then have set: "js_set t name x = t @ [(name, x)]"
    using fresh(1) by (simp add: js_set_def update_fresh)
  have "store_each err es (t @ [(name, x)]) = ((t @ [(name, x)]) @ es, None)"
  proof (rule Cons.IH)
    show "distinct (map fst es)" using Cons.prems(1) by simp
    show "\<forall>key\<in>fst ` set es. key \<notin> fst ` set (t @ [(name, x)]) \<and> key \<notin> fst ` set Object_prototype"
      using Cons.prems e by auto
  qed
  then show ?case using undef set e by simp
qed

lemma store_each_keys_mono: "fst ` set t \<subseteq> fst ` set (fst (store_each err es t))"
proof (induction es arbitrary: t)
  case Nil
  then show ?case by simp
next
  case (Cons e es)
  obtain name x where e: "e = (name, x)" by (cases e)
  have "fst ` set t \<subseteq> fst ` set (js_set t name x)" by (auto simp: keys_js_set)
  then show ?case using Cons.IH[of "js_set t name x"] e by auto
qed

lemma store_each_success_keys:
  "snd (store_each err es t) = None \<Longrightarrow>
   fst ` set (fst (store_each err es t)) = fst ` set t \<union> fst ` set es"
proof (induction es arbitrary: t)
  case Nil
  then show ?case by simp
next
  case (Cons e es)
  obtain name x where e: "e = (name, x)" by (cases e)
  have falsy: "\<not> truthy (js_get t name)" using Cons.prems e by (auto split: if_splits)
  then have rest: "snd (store_each err es (js_set t name x)) = None"
    using Cons.prems e by simp
  have "name = ''__proto__'' \<Longrightarrow> name \<in> fst ` set t"
    using falsy_not_own[OF falsy] by (auto simp: Object_prototype_def)
  then have "fst ` set (js_set t name x) = insert name (fst ` set t)"
    by (auto simp: keys_js_set)
  then show ?case using Cons.IH[OF rest] falsy e by auto
qed

lemma store_each_set: "set (fst (store_each err es t)) \<subseteq> set t \<union> set es"
proof (induction es arbitrary: t)
  case Nil
  then show ?case by simp
next
  case (Cons e es)
  obtain name x where e: "e = (name, x)" by (cases e)
  show ?case using Cons.IH[of "js_set t name x"] set_js_set_subset[of t name x] e by auto
qed

lemma store_each_no_proto:
  "''__proto__'' \<notin> fst ` set t \<Longrightarrow> ''__proto__'' \<notin> fst ` set (fst (store_each err es t))"
proof (induction es arbitrary: t)
  case Nil
  then show ?case by simp
next
  case (Cons e es)
  obtain name x where e: "e = (name, x)" by (cases e)
  have "''__proto__'' \<notin> fst ` set (js_set t name x)"
    using Cons.prems by (auto simp: keys_js_set split: if_splits)
  then show ?case using Cons.IH[of "js_set t name x"] Cons.prems e by auto
qed

lemma is_object_truthy: "is_object v \<Longrightarrow> truthy v"
  by (cases v) (simp_all add: is_object_def)

lemma is_model_object: "is_model v \<Longrightarrow> is_object v"
  by (cases v) (simp_all add: is_model_def is_object_def)

lemma clean_truthy: "clean obj \<Longrightarrow> map_of obj key = Some v \<Longrightarrow> truthy v"
  by (auto simp: clean_def list_all_iff dest!: map_of_SomeD intro: is_object_truthy)

lemma clean_present: "clean obj \<Longrightarrow> key \<in> fst ` set obj \<Longrightarrow> truthy (js_get obj key)"
proof -
  assume c: "clean obj" and k: "key \<in> fst ` set obj"
  then obtain v where v: "map_of obj key = Some v"
    by (metis map_of_eq_None_iff not_Some_eq)
  then show ?thesis using clean_truthy[OF c v] by (simp add: js_get_def)
qed

lemma keys_entries_of: "fst ` set (entries_of obj) = fst ` set obj"
  by (force simp: entries_of_def Object_keys_def)

lemma values_entries_of: "(key, v) \<in> set (entries_of obj) \<Longrightarrow> \<exists>key'. (key', v) \<in> set obj"
proof -
  assume "(key, v) \<in> set (entries_of obj)"
  then have k: "key \<in> fst ` set obj" and v: "v = js_get obj key"
    by (auto simp: entries_of_def Object_keys_def)
  then obtain x where "map_of obj key = Some x"
    by (metis map_of_eq_None_iff not_Some_eq)
  then show ?thesis using v by (auto simp: js_get_def dest: map_of_SomeD)
qed

lemma entries_of_distinct: "distinct (map fst obj) \<Longrightarrow> entries_of obj = obj"
proof -
  assume d: "distinct (map fst obj)"
  have "\<forall>p \<in> set obj. (fst p, js_get obj (fst p)) = p"
    using d by (auto simp: js_get_def)
  then show ?thesis
    by (simp add: entries_of_def Object_keys_def map_idI comp_def)
qed

lemma store_each_clean:
  assumes "clean t" and "list_all (\<lambda>(key, v). is_object v) es"
  shows "clean (fst (store_each err es t))"
proof -
  have "set (fst (store_each err es t)) \<subseteq> set t \<union> set es" by (rule store_each_set)
  moreover have "''__proto__'' \<notin> fst ` set (fst (store_each err es t))"
    using assms(1) by (intro store_each_no_proto) (simp add: clean_def)
  ultimately show ?thesis using assms by (auto simp: clean_def list_all_iff)
qed

lemma store_each_stores:
  "clean t \<Longrightarrow> list_all (\<lambda>(key, v). is_object v) es \<Longrightarrow> snd (store_each err es t) = None \<Longrightarrow>
   (key, v) \<in> set es \<Longrightarrow> map_of (fst (store_each err es t)) key = Some v"
proof (induction es arbitrary: t)
  case Nil
  then show ?case by simp
next
  case (Cons e es)
  obtain name x where e: "e = (name, x)" by (cases e)
  have falsy: "\<not> truthy (js_get t name)" using Cons.prems(3) e by (auto split: if_splits)
  have rest: "snd (store_each err es (js_set t name x)) = None"
    using Cons.prems(3) e falsy by simp
  have step: "fst (store_each err (e # es) t) = fst (store_each err es (js_set t name x))"
    using e falsy by simp
  have obj: "is_object x" "list_all (\<lambda>(key, v). is_object v) es"
    using Cons.prems(2) e by auto
  have "name \<notin> fst ` set t" using clean_present[OF Cons.prems(1)] falsy by blast
  then have "name \<noteq> ''__proto__''"
    using falsy_not_own[OF falsy] by (auto simp: Object_prototype_def)
  then have here: "map_of (js_set t name x) name = Some x"
    by (simp add: js_set_def update_conv')
  have cl: "clean (js_set t name x)"
    using store_each_clean[OF Cons.prems(1), of "[(name, x)]" err] obj(1) falsy by simp
  show ?case
  proof (cases "(key, v) = (name, x)")
    case True
    then show ?thesis
      using store_each_keeps[OF here is_object_truthy[OF obj(1)]] step by simp
  next
    case False
    then have "(key, v) \<in> set es" using Cons.prems(4) e by auto
    then show ?thesis using Cons.IH[OF cl obj(2) rest] step by simp
  qed
qed

section \<open>The merge\<close>

lemma merge_unfold:
  assumes "connections c = Some conns"
  shows "merge config c =
    (let a = merged_adapters config c; n = merged_connections config conns;
         m = merged_models config c
     in if snd a \<noteq> None then (c\<lparr>adapters := fst a\<rparr>, snd a)
        else if snd n \<noteq> None then (c\<lparr>adapters := fst a, connections := Some (fst n)\<rparr>, snd n)
        else (c\<lparr>adapters := fst a, connections := Some (fst n), models := fst m\<rparr>, snd m))"
  using assms
  by (auto simp: merge_def collect_adapters_def collect_connections_def collect_models_def
      merged_adapters_def merged_connections_def merged_models_def fragment_def Let_def
      split: prod.splits option.splits)

lemma Schema_models: "Schema_dogwater config \<Longrightarrow> list_all is_model (models_of config)"
  by (auto simp: Schema_dogwater_def Schema_config_object_def models_of_def coerce_def
      is_models_def split: config.splits option.splits jsval.splits)

lemma Schema_adapters:
  "Schema_dogwater config \<Longrightarrow> list_all (\<lambda>(key, v). is_object v) (adapters_of config)"
  by (auto simp: Schema_dogwater_def Schema_config_object_def adapters_of_def coerce_def
      split: config.splits option.splits)

lemma Schema_connections:
  "Schema_dogwater config \<Longrightarrow> list_all (\<lambda>(key, v). is_object v) (connections_of config)"
  by (auto simp: Schema_dogwater_def Schema_config_object_def connections_of_def coerce_def
      split: config.splits option.splits)

lemma entries_of_objects:
  "list_all (\<lambda>(key, v). is_object v) obj \<Longrightarrow> list_all (\<lambda>(key, v). is_object v) (entries_of obj)"
  by (auto simp: list_all_iff dest: values_entries_of)

lemma Schema_fragment:
  assumes "Schema_dogwater config"
  shows "list_all (\<lambda>(key, v). is_object v) (fragment k config)"
proof (cases k)
  case Adapter
  then show ?thesis
    using entries_of_objects[OF Schema_adapters[OF assms]] by (simp add: fragment_def)
next
  case Connection
  then show ?thesis
    using entries_of_objects[OF Schema_connections[OF assms]] by (simp add: fragment_def)
next
  case Model
  have "list_all is_model (models_of config)" using assms by (rule Schema_models)
  then have "\<forall>p \<in> set (zip (map identity (models_of config)) (models_of config)). is_object (snd p)"
    by (auto simp: list_all_iff dest!: set_zip_rightD intro: is_model_object)
  then show ?thesis using Model by (auto simp: fragment_def list_all_iff)
qed

lemma Schema_fragment_models:
  assumes "Schema_dogwater config"
  shows "list_all (\<lambda>(key, m). is_model m \<and> identity m = key) (fragment Model config)"
proof -
  have m: "list_all is_model (models_of config)" using assms by (rule Schema_models)
  have "\<And>ms. list_all is_model ms \<Longrightarrow>
          list_all (\<lambda>(key, m). is_model m \<and> identity m = key) (zip (map identity ms) ms)"
    subgoal for ms by (induction ms) auto
    done
  then show ?thesis using m by (simp add: fragment_def)
qed

lemma fragment_model_keys: "fst ` set (fragment Model config) = set (map identity (models_of config))"
proof -
  have "map fst (zip (map identity (models_of config)) (models_of config)) =
          map identity (models_of config)"
    by (simp add: map_fst_zip)
  then show ?thesis by (metis fragment_def kind.simps(9) set_map)
qed

lemma and_then_keeps:
  assumes "\<And>s. g (fst (f s)) = g s"
  shows "g (fst (and_then p f)) = g (fst p)"
proof (cases p)
  case (Pair s r)
  then show ?thesis using assms by (cases r) simp_all
qed

lemma merge_rest:
  "defaults (fst (merge config c)) = defaults c \<and>
   teardownOnStop (fst (merge config c)) = teardownOnStop c \<and>
   datastores (fst (merge config c)) = datastores c"
proof -
  have a: "\<And>x s. defaults (fst (collect_adapters x s)) = defaults s \<and>
      teardownOnStop (fst (collect_adapters x s)) = teardownOnStop s \<and>
      datastores (fst (collect_adapters x s)) = datastores s"
    by (simp add: collect_adapters_def split: prod.splits)
  have n: "\<And>x s. defaults (fst (collect_connections x s)) = defaults s \<and>
      teardownOnStop (fst (collect_connections x s)) = teardownOnStop s \<and>
      datastores (fst (collect_connections x s)) = datastores s"
    by (simp add: collect_connections_def split: prod.splits option.splits)
  have m: "\<And>x s. defaults (fst (collect_models x s)) = defaults s \<and>
      teardownOnStop (fst (collect_models x s)) = teardownOnStop s \<and>
      datastores (fst (collect_models x s)) = datastores s"
    by (simp add: collect_models_def Let_def split: prod.splits)
  show ?thesis
    unfolding merge_def by (simp add: and_then_keeps a n m)
qed

lemma sound_connections: "sound_collector c \<Longrightarrow> \<exists>conns. connections c = Some conns \<and> clean conns"
  by (auto simp: sound_collector_def split: option.splits)

lemma merge_sound:
  assumes "sound_collector c" and "Schema_dogwater config"
  shows "sound_collector (fst (merge config c))"
proof -
  obtain conns where conns: "connections c = Some conns" "clean conns"
    using sound_connections[OF assms(1)] by blast
  have a: "clean (fst (merged_adapters config c))"
    unfolding merged_adapters_def
    using assms(1) Schema_fragment[OF assms(2)] by (intro store_each_clean) (auto simp: sound_collector_def)
  have n: "clean (fst (merged_connections config conns))"
    unfolding merged_connections_def
    using conns(2) Schema_fragment[OF assms(2)] by (intro store_each_clean) auto
  have m: "clean (fst (merged_models config c))"
    unfolding merged_models_def
    using assms(1) Schema_fragment[OF assms(2)] by (intro store_each_clean) (auto simp: sound_collector_def)
  have "set (fst (merged_models config c)) \<subseteq> set (models c) \<union> set (fragment Model config)"
    unfolding merged_models_def by (rule store_each_set)
  then have i: "list_all (\<lambda>(key, m). is_model m \<and> identity m = key) (fst (merged_models config c))"
    using assms(1) Schema_fragment_models[OF assms(2)]
    by (auto simp: sound_collector_def list_all_iff)
  show ?thesis
    using a n m i assms(1) conns
    by (simp add: merge_unfold[OF conns(1)] Let_def sound_collector_def)
qed

lemma merge_keeps:
  assumes "sound_collector c" and "stored k c key = Some v"
  shows "stored k (fst (merge config c)) key = Some v"
proof -
  obtain conns where conns: "connections c = Some conns" "clean conns"
    using sound_connections[OF assms(1)] by blast
  have cl: "clean (adapters c)" "clean (models c)"
    using assms(1) by (auto simp: sound_collector_def)
  have a: "map_of (adapters c) key = Some v \<Longrightarrow> map_of (fst (merged_adapters config c)) key = Some v"
    unfolding merged_adapters_def using clean_truthy[OF cl(1)] by (intro store_each_keeps)
  have n: "map_of conns key = Some v \<Longrightarrow> map_of (fst (merged_connections config conns)) key = Some v"
    unfolding merged_connections_def using clean_truthy[OF conns(2)] by (intro store_each_keeps)
  have m: "map_of (models c) key = Some v \<Longrightarrow> map_of (fst (merged_models config c)) key = Some v"
    unfolding merged_models_def using clean_truthy[OF cl(2)] by (intro store_each_keeps)
  show ?thesis
    using a n m assms(2) conns(1)
    by (cases k) (auto simp: merge_unfold[OF conns(1)] Let_def stored_def)
qed

lemma merge_error:
  assumes "sound_collector c" and "snd (merge config c) = Some e"
  shows "\<exists>k key. e = AlreadyRegistered k key \<and> key \<in> fst ` set (fragment k config)"
proof -
  obtain conns where conns: "connections c = Some conns"
    using sound_connections[OF assms(1)] by blast
  have "snd (merged_adapters config c) = Some e \<or> snd (merged_connections config conns) = Some e
        \<or> snd (merged_models config c) = Some e"
    using assms(2) by (auto simp: merge_unfold[OF conns] Let_def split: if_splits)
  then show ?thesis
    unfolding merged_adapters_def merged_connections_def merged_models_def
    by (blast dest: store_each_error)
qed

lemma merge_fails:
  assumes "sound_collector c" and "stored k c key = Some v" and "key \<in> fst ` set (fragment k config)"
  shows "snd (merge config c) \<noteq> None"
proof -
  obtain conns where conns: "connections c = Some conns" "clean conns"
    using sound_connections[OF assms(1)] by blast
  have cl: "clean (adapters c)" "clean (models c)"
    using assms(1) by (auto simp: sound_collector_def)
  show ?thesis
  proof (cases k)
    case Adapter
    then have "truthy (js_get (adapters c) key)"
      using assms(2) clean_truthy[OF cl(1)] by (auto simp: stored_def js_get_def)
    then have "snd (merged_adapters config c) \<noteq> None"
      unfolding merged_adapters_def using assms(3) Adapter by (intro store_each_fails) auto
    then show ?thesis by (auto simp: merge_unfold[OF conns(1)] Let_def)
  next
    case Connection
    then have "truthy (js_get conns key)"
      using assms(2) clean_truthy[OF conns(2)] conns(1) by (auto simp: stored_def js_get_def)
    then have "snd (merged_connections config conns) \<noteq> None"
      unfolding merged_connections_def using assms(3) Connection by (intro store_each_fails) auto
    then show ?thesis by (auto simp: merge_unfold[OF conns(1)] Let_def)
  next
    case Model
    then have "truthy (js_get (models c) key)"
      using assms(2) clean_truthy[OF cl(2)] by (auto simp: stored_def js_get_def)
    then have "snd (merged_models config c) \<noteq> None"
      unfolding merged_models_def using assms(3) Model by (intro store_each_fails) auto
    then show ?thesis by (auto simp: merge_unfold[OF conns(1)] Let_def)
  qed
qed

lemma merge_stores:
  assumes "sound_collector c" and "Schema_dogwater config" and "snd (merge config c) = None"
    and "(key, v) \<in> set (fragment k config)"
  shows "stored k (fst (merge config c)) key = Some v"
proof -
  obtain conns where conns: "connections c = Some conns" "clean conns"
    using sound_connections[OF assms(1)] by blast
  have cl: "clean (adapters c)" "clean (models c)"
    using assms(1) by (auto simp: sound_collector_def)
  have ok: "snd (merged_adapters config c) = None" "snd (merged_connections config conns) = None"
    "snd (merged_models config c) = None"
    using assms(3) by (auto simp: merge_unfold[OF conns(1)] Let_def split: if_splits)
  note objs = Schema_fragment[OF assms(2)]
  show ?thesis
  proof (cases k)
    case Adapter
    have "map_of (fst (merged_adapters config c)) key = Some v"
      unfolding merged_adapters_def
      using cl(1) objs ok(1) assms(4) Adapter
      by (intro store_each_stores) (auto simp: merged_adapters_def)
    then show ?thesis using ok Adapter by (simp add: merge_unfold[OF conns(1)] Let_def stored_def)
  next
    case Connection
    have "map_of (fst (merged_connections config conns)) key = Some v"
      unfolding merged_connections_def
      using conns(2) objs ok(2) assms(4) Connection
      by (intro store_each_stores) (auto simp: merged_connections_def)
    then show ?thesis using ok Connection by (simp add: merge_unfold[OF conns(1)] Let_def stored_def)
  next
    case Model
    have "map_of (fst (merged_models config c)) key = Some v"
      unfolding merged_models_def
      using cl(2) objs ok(3) assms(4) Model
      by (intro store_each_stores) (auto simp: merged_models_def)
    then show ?thesis using ok Model by (simp add: merge_unfold[OF conns(1)] Let_def stored_def)
  qed
qed

lemma merge_model_keys_mono:
  assumes "sound_collector c"
  shows "fst ` set (models c) \<subseteq> fst ` set (models (fst (merge config c)))"
proof -
  obtain conns where conns: "connections c = Some conns"
    using sound_connections[OF assms(1)] by blast
  have "fst ` set (models c) \<subseteq> fst ` set (fst (merged_models config c))"
    unfolding merged_models_def by (rule store_each_keys_mono)
  then show ?thesis by (simp add: merge_unfold[OF conns] Let_def)
qed

lemma merge_success_model_keys:
  assumes "sound_collector c" and "snd (merge config c) = None"
  shows "fst ` set (models (fst (merge config c))) =
           fst ` set (models c) \<union> set (map identity (models_of config))"
proof -
  obtain conns where conns: "connections c = Some conns"
    using sound_connections[OF assms(1)] by blast
  have ok: "snd (merged_adapters config c) = None" "snd (merged_connections config conns) = None"
    "snd (merged_models config c) = None"
    using assms(2) by (auto simp: merge_unfold[OF conns] Let_def split: if_splits)
  have "fst ` set (fst (merged_models config c)) =
          fst ` set (models c) \<union> fst ` set (fragment Model config)"
    using ok(3) unfolding merged_models_def by (rule store_each_success_keys)
  then show ?thesis using ok by (simp add: merge_unfold[OF conns] Let_def fragment_model_keys)
qed

section \<open>Registrations keep the world sound\<close>

lemma part_at_not_num: "strict_equals_num (part_at parts i) n = False"
  by (simp add: part_at_def)

lemma renames_never: "renames_connections (semverSplit version) = False"
  by (simp add: renames_connections_def semverSplit_def Let_def part_at_not_num)

lemma new_collector_empty: "new_collector (WaterlineVersion h) = empty_collector"
  by (simp add: new_collector_def WaterlineVersion_def renames_never Let_def)

lemma sound_empty_collector: "sound_collector empty_collector"
  by (simp add: sound_collector_def empty_collector_def clean_def)

lemma sound_initial_world: "sound initial_world"
  by (simp add: sound_def initial_world_def sound_empty_collector scope_record_def new_Waterline_def)

lemma sound_set_up: "sound w \<Longrightarrow> sound (set_up h w) \<and> is_setup (set_up h w)"
  by (auto simp: sound_def set_up_def new_collector_empty scope_record_def new_Waterline_def)

lemma set_up_done: "is_setup w \<Longrightarrow> set_up h w = w"
  by (simp add: set_up_def)

lemma options_stage_rest:
  "adapters (fst (options_stage options c)) = adapters c \<and>
   connections (fst (options_stage options c)) = connections c \<and>
   models (fst (options_stage options c)) = models c \<and>
   datastores (fst (options_stage options c)) = datastores c"
proof -
  have d: "\<And>s. adapters (fst (set_defaults options s)) = adapters s \<and>
      connections (fst (set_defaults options s)) = connections s \<and>
      models (fst (set_defaults options s)) = models s \<and>
      datastores (fst (set_defaults options s)) = datastores s"
    by (simp add: set_defaults_def Let_def split: prod.splits)
  have t: "\<And>s. adapters (fst (set_teardownOnStop options s)) = adapters s \<and>
      connections (fst (set_teardownOnStop options s)) = connections s \<and>
      models (fst (set_teardownOnStop options s)) = models s \<and>
      datastores (fst (set_teardownOnStop options s)) = datastores s"
    by (simp add: set_teardownOnStop_def split: option.splits)
  show ?thesis unfolding options_stage_def by (simp add: and_then_keeps t d)
qed

lemma options_stage_sound:
  "sound_collector c \<Longrightarrow> sound_collector (fst (options_stage options c))"
  by (simp add: sound_collector_def options_stage_rest)

lemma dogwater_unfold:
  "dogwater config this w =
    (if \<not> Schema_dogwater config then (w, Some ValidationError)
     else if snd (merge config (collector w)) \<noteq> None
       then (w\<lparr>collector := fst (merge config (collector w))\<rparr>, snd (merge config (collector w)))
     else (w\<lparr>collector := fst (merge config (collector w)),
              realm_models := (realm_models w)
                (this := Some (scope_record w this @ map identity (models_of config)))\<rparr>, None))"
  by (auto simp: dogwater_def scope_record_def Let_def split: prod.splits option.splits)

lemma dogwater_record:
  "scope_record (fst (dogwater config this w)) r =
     scope_record w r @
       (if snd (dogwater config this w) = None \<and> r = this then map identity (models_of config)
        else [])"
  by (auto simp: dogwater_unfold scope_record_def)

lemma dogwater_sound:
  assumes "sound w" and "is_setup w"
  shows "sound (fst (dogwater config this w)) \<and> is_setup (fst (dogwater config this w))"
proof (cases "Schema_dogwater config")
  case False
  then show ?thesis using assms by (simp add: dogwater_unfold)
next
  case True
  let ?c = "fst (merge config (collector w))"
  have sc: "sound_collector (collector w)" using assms(1) by (simp add: sound_def)
  have c: "sound_collector ?c" using sc True by (rule merge_sound)
  have mono: "fst ` set (models (collector w)) \<subseteq> fst ` set (models ?c)"
    using sc by (rule merge_model_keys_mono)
  have "\<forall>r. set (scope_record w r) \<subseteq> fst ` set (models (collector w))"
    using assms(1) by (simp add: sound_def)
  then have old: "\<And>r. set (scope_record w r) \<subseteq> fst ` set (models ?c)"
    using mono by blast
  show ?thesis
  proof (cases "snd (merge config (collector w)) = None")
    case False
    then show ?thesis
      using assms c old True by (auto simp: dogwater_unfold sound_def scope_record_def)
  next
    case ok: True
    have "set (map identity (models_of config)) \<subseteq> fst ` set (models ?c)"
      using merge_success_model_keys[OF sc ok] by auto
    then have "\<And>r. set (scope_record (fst (dogwater config this w)) r) \<subseteq> fst ` set (models ?c)"
      using old by (auto simp: dogwater_record)
    moreover have "collector (fst (dogwater config this w)) = ?c"
      using True ok by (simp add: dogwater_unfold)
    moreover have "waterline (fst (dogwater config this w)) = waterline w"
      "is_setup (fst (dogwater config this w))"
      using True ok assms(2) by (simp_all add: dogwater_unfold)
    ultimately show ?thesis using c assms by (simp add: sound_def)
  qed
qed

lemma register_unfold:
  "register h options w =
    (if \<not> Schema_plugin options then (w, Some ValidationError)
     else
       (let w1 = set_up h w; s = options_stage options (collector w1)
        in if snd s \<noteq> None then (w1\<lparr>collector := fst s\<rparr>, snd s)
           else
             (case registrationConfig h options of
                Inl e \<Rightarrow> (w1\<lparr>collector := fst s\<rparr>, Some e)
              | Inr config \<Rightarrow> dogwater (ConfigObject config) Root (w1\<lparr>collector := fst s\<rparr>))))"
proof -
  obtain c r where s: "options_stage options (collector (set_up h w)) = (c, r)"
    by (cases "options_stage options (collector (set_up h w))")
  then have "and_then (set_defaults options (collector (set_up h w))) (set_teardownOnStop options)
               = (c, r)"
    by (simp add: options_stage_def)
  then show ?thesis using s by (cases r) (auto simp: register_def Let_def split: sum.splits)
qed

lemma with_collector_sound:
  assumes "sound w" and "sound_collector c" and "models c = models (collector w)" and "is_setup w"
  shows "sound (w\<lparr>collector := c\<rparr>)"
  using assms by (simp add: sound_def scope_record_def)

lemma register_sound:
  assumes "sound w"
  shows "sound (fst (register h options w))"
proof (cases "Schema_plugin options")
  case False
  then show ?thesis using assms by (simp add: register_unfold)
next
  case True
  let ?w1 = "set_up h w"
  let ?s = "options_stage options (collector ?w1)"
  have w1: "sound ?w1" "is_setup ?w1" using sound_set_up[OF assms] by auto
  have "sound_collector (fst ?s)"
    using w1(1) by (intro options_stage_sound) (simp add: sound_def)
  then have w2: "sound (?w1\<lparr>collector := fst ?s\<rparr>)"
    using w1 by (intro with_collector_sound) (simp_all add: options_stage_rest)
  have s2: "is_setup (?w1\<lparr>collector := fst ?s\<rparr>)" using w1(2) by simp
  show ?thesis
    using True w2 dogwater_sound[OF w2 s2]
    by (simp add: register_unfold Let_def split: sum.splits)
qed

lemma perform_sound: "sound w \<Longrightarrow> sound (fst (perform h r w))"
  by (cases r) (auto simp: register_sound server_dogwater_def dogwater_sound)

lemma run_sound: "sound w \<Longrightarrow> sound (run h rs w)"
  by (induction rs arbitrary: w) (simp_all add: perform_sound)

lemma reachable_sound: "sound (run h rs initial_world)"
  by (simp add: run_sound sound_initial_world)

section \<open>The options stage of a registration\<close>

lemma dogwater_rest:
  "defaults (collector (fst (dogwater config this w))) = defaults (collector w) \<and>
   teardownOnStop (collector (fst (dogwater config this w))) = teardownOnStop (collector w) \<and>
   datastores (collector (fst (dogwater config this w))) = datastores (collector w)"
  by (simp add: dogwater_unfold merge_rest)

lemma dogwater_setup: "is_setup (fst (dogwater config this w)) = is_setup w"
  by (simp add: dogwater_unfold)

lemma options_stage_unfold:
  "options_stage options c =
    (if snd (set_defaults options c) \<noteq> None then set_defaults options c
     else set_teardownOnStop options (fst (set_defaults options c)))"
proof -
  obtain d r where d: "set_defaults options c = (d, r)" by (cases "set_defaults options c")
  then show ?thesis by (cases r) (simp_all add: options_stage_def)
qed

lemma set_defaults_teardownOnStop:
  "teardownOnStop (fst (set_defaults options c)) = teardownOnStop c"
  by (simp add: set_defaults_def Let_def split: prod.splits)

lemma set_defaults_error:
  assumes "snd (set_defaults options c) = Some e"
  shows "\<exists>key. e = DefaultAlreadySet key"
proof -
  obtain target r where
    s: "store_each DefaultAlreadySet
          (entries_of (case opt_defaults options of None \<Rightarrow> [] | Some d \<Rightarrow> d)) (defaults c) =
        (target, r)"
    by (cases "store_each DefaultAlreadySet
          (entries_of (case opt_defaults options of None \<Rightarrow> [] | Some d \<Rightarrow> d)) (defaults c)")
  have "r = Some e" using assms s by (simp add: set_defaults_def Let_def)
  then have "snd (store_each DefaultAlreadySet
          (entries_of (case opt_defaults options of None \<Rightarrow> [] | Some d \<Rightarrow> d)) (defaults c)) =
        Some e"
    using s by simp
  then have "\<exists>key \<in> fst ` set (entries_of (case opt_defaults options of None \<Rightarrow> [] | Some d \<Rightarrow> d)).
      e = DefaultAlreadySet key"
    by (rule store_each_error)
  then show ?thesis by blast
qed

lemma options_stage_success_teardownOnStop:
  assumes "snd (options_stage options c) = None" and "opt_teardownOnStop options = Some b"
  shows "teardownOnStop (fst (options_stage options c)) = Some b"
  using assms
  by (auto simp: options_stage_unfold set_teardownOnStop_def split: if_splits)

lemma register_success:
  assumes "snd (register h options w) = None"
  shows "is_setup (fst (register h options w))"
    and "opt_teardownOnStop options = Some b \<Longrightarrow>
           teardownOnStop (collector (fst (register h options w))) = Some b"
proof -
  let ?w1 = "set_up h w"
  let ?s = "options_stage options (collector ?w1)"
  have valid: "Schema_plugin options" using assms by (auto simp: register_unfold split: if_splits)
  have ok: "snd ?s = None"
    using assms valid by (auto simp: register_unfold Let_def split: if_splits)
  obtain config where config: "registrationConfig h options = Inr config"
    using assms valid ok by (cases "registrationConfig h options") (auto simp: register_unfold Let_def)
  have reg: "register h options w = dogwater (ConfigObject config) Root (?w1\<lparr>collector := fst ?s\<rparr>)"
    using valid ok config by (simp add: register_unfold Let_def)
  have "is_setup ?w1" by (simp add: set_up_def)
  then show "is_setup (fst (register h options w))" by (simp add: reg dogwater_setup)
  show "opt_teardownOnStop options = Some b \<Longrightarrow>
           teardownOnStop (collector (fst (register h options w))) = Some b"
    using options_stage_success_teardownOnStop[OF ok] by (simp add: reg dogwater_rest)
qed

section \<open>Calls of \<open>server.dogwater\<close>\<close>

lemma server_dogwater_success:
  "snd (server_dogwater config this w) = None \<Longrightarrow> is_setup w \<and> Schema_dogwater config"
  by (auto simp: server_dogwater_def dogwater_unfold split: if_splits)

lemma dogwater_collector:
  "Schema_dogwater config \<Longrightarrow>
     collector (fst (dogwater config this w)) = fst (merge config (collector w)) \<and>
     snd (dogwater config this w) = snd (merge config (collector w))"
  by (simp add: dogwater_unfold)

section \<open>Scope Records along a sequence of registrations\<close>

lemma run_append: "run h (rs @ rs') w = run h rs' (run h rs w)"
  by (induction rs arbitrary: w) simp_all

lemma set_up_models: "sound w \<Longrightarrow> models (collector (set_up h w)) = models (collector w)"
  by (auto simp: set_up_def sound_def new_collector_empty)

lemma set_up_realm_models: "realm_models (set_up h w) = realm_models w"
  by (simp add: set_up_def)

lemma register_as_dogwater:
  assumes "snd (register h options w) = None"
  shows "\<exists>config c. registrationConfig h options = Inr config \<and>
           models c = models (collector (set_up h w)) \<and>
           sound_collector c = sound_collector (collector (set_up h w)) \<and>
           register h options w = dogwater (ConfigObject config) Root (set_up h w\<lparr>collector := c\<rparr>)"
proof -
  let ?w1 = "set_up h w"
  let ?s = "options_stage options (collector ?w1)"
  have valid: "Schema_plugin options" using assms by (auto simp: register_unfold split: if_splits)
  have ok: "snd ?s = None"
    using assms valid by (auto simp: register_unfold Let_def split: if_splits)
  obtain config where config: "registrationConfig h options = Inr config"
    using assms valid ok by (cases "registrationConfig h options") (auto simp: register_unfold Let_def)
  have "register h options w = dogwater (ConfigObject config) Root (?w1\<lparr>collector := fst ?s\<rparr>)"
    using valid ok config by (simp add: register_unfold Let_def)
  moreover have "models (fst ?s) = models (collector ?w1)" by (simp add: options_stage_rest)
  moreover have "sound_collector (fst ?s) = sound_collector (collector ?w1)"
    by (simp add: sound_collector_def options_stage_rest)
  ultimately show ?thesis using config by blast
qed

lemma register_failure_record:
  assumes "snd (register h options w) \<noteq> None"
  shows "scope_record (fst (register h options w)) r = scope_record w r"
proof (cases "Schema_plugin options")
  case False
  then show ?thesis by (simp add: register_unfold)
next
  case True
  let ?w1 = "set_up h w"
  let ?s = "options_stage options (collector ?w1)"
  have base: "scope_record (?w1\<lparr>collector := fst ?s\<rparr>) r = scope_record w r"
    by (simp add: scope_record_def set_up_realm_models)
  show ?thesis
  proof (cases "snd ?s = None")
    case False
    then show ?thesis using True base by (simp add: register_unfold Let_def scope_record_def)
  next
    case ok: True
    show ?thesis
    proof (cases "registrationConfig h options")
      case (Inl e)
      then show ?thesis using True ok base by (simp add: register_unfold Let_def scope_record_def)
    next
      case (Inr config)
      then have reg: "register h options w =
          dogwater (ConfigObject config) Root (?w1\<lparr>collector := fst ?s\<rparr>)"
        using True ok by (simp add: register_unfold Let_def)
      have "snd (dogwater (ConfigObject config) Root (?w1\<lparr>collector := fst ?s\<rparr>)) \<noteq> None"
        using assms reg by simp
      then show ?thesis using base by (auto simp: reg dogwater_record)
    qed
  qed
qed

lemma perform_record:
  "scope_record (fst (perform h reg w)) r =
     scope_record w r @
       (if snd (perform h reg w) = None \<and> scope_of reg = r then identities_of h reg else [])"
proof (cases reg)
  case (CallDogwater this config)
  then show ?thesis
    by (auto simp: server_dogwater_def dogwater_record identities_of_def)
next
  case (RegisterPlugin options)
  show ?thesis
  proof (cases "snd (register h options w) = None")
    case False
    then show ?thesis using RegisterPlugin by (auto simp: register_failure_record)
  next
    case True
    then obtain config c where c: "registrationConfig h options = Inr config"
      "register h options w = dogwater (ConfigObject config) Root (set_up h w\<lparr>collector := c\<rparr>)"
      using register_as_dogwater by blast
    have ok: "snd (dogwater (ConfigObject config) Root (set_up h w\<lparr>collector := c\<rparr>)) = None"
      using True c(2) by simp
    have "scope_record (set_up h w\<lparr>collector := c\<rparr>) r = scope_record w r"
      by (simp add: scope_record_def set_up_realm_models)
    then show ?thesis
      using RegisterPlugin True ok c(1)
      by (auto simp: c(2) dogwater_record identities_of_def)
  qed
qed

lemma run_record_grows:
  "\<exists>more. scope_record (run h rs w) r = scope_record w r @ more"
proof (induction rs arbitrary: w)
  case Nil
  then show ?case by simp
next
  case (Cons reg rs)
  obtain more where "scope_record (run h rs (fst (perform h reg w))) r =
      scope_record (fst (perform h reg w)) r @ more"
    using Cons.IH by blast
  then show ?case by (simp add: perform_record)
qed

section \<open>Models along a sequence of registrations, and initialization\<close>

lemma perform_model_keys:
  assumes "sound w" and "snd (perform h reg w) = None"
  shows "fst ` set (models (collector (fst (perform h reg w)))) =
           fst ` set (models (collector w)) \<union> set (identities_of h reg)"
proof (cases reg)
  case (CallDogwater this config)
  have ok: "snd (server_dogwater config this w) = None" using assms(2) CallDogwater by simp
  then have up: "is_setup w" and valid: "Schema_dogwater config"
    using server_dogwater_success by auto
  have sc: "sound_collector (collector w)" using assms(1) by (simp add: sound_def)
  have m: "snd (merge config (collector w)) = None"
    using ok up dogwater_collector[OF valid] by (simp add: server_dogwater_def)
  show ?thesis
    using merge_success_model_keys[OF sc m] CallDogwater up dogwater_collector[OF valid]
    by (simp add: server_dogwater_def identities_of_def)
next
  case (RegisterPlugin options)
  have ok: "snd (register h options w) = None" using assms(2) RegisterPlugin by simp
  then obtain config c where c: "registrationConfig h options = Inr config"
    "models c = models (collector (set_up h w))"
    "sound_collector c = sound_collector (collector (set_up h w))"
    "register h options w = dogwater (ConfigObject config) Root (set_up h w\<lparr>collector := c\<rparr>)"
    using register_as_dogwater by blast
  have "sound (set_up h w)" using sound_set_up[OF assms(1)] by simp
  then have sc: "sound_collector c" using c(3) by (simp add: sound_def)
  have valid: "Schema_dogwater (ConfigObject config)"
    using ok c(4) by (auto simp: dogwater_unfold split: if_splits)
  have m: "snd (merge (ConfigObject config) c) = None"
    using ok c(4) dogwater_collector[OF valid, of Root "set_up h w\<lparr>collector := c\<rparr>"] by simp
  have "collector (fst (register h options w)) = fst (merge (ConfigObject config) c)"
    using c(4) dogwater_collector[OF valid, of Root "set_up h w\<lparr>collector := c\<rparr>"] by simp
  then show ?thesis
    using merge_success_model_keys[OF sc m] RegisterPlugin c(1) c(2) set_up_models[OF assms(1)]
    by (simp add: identities_of_def)
qed

lemma run_model_keys:
  "sound w \<Longrightarrow> list_all (\<lambda>out. out = None) (outcomes h rs w) \<Longrightarrow>
   fst ` set (models (collector (run h rs w))) =
     fst ` set (models (collector w)) \<union> set (concat (map (identities_of h) rs))"
proof (induction rs arbitrary: w)
  case Nil
  then show ?case by simp
next
  case (Cons reg rs)
  have ok: "snd (perform h reg w) = None"
    and rest: "list_all (\<lambda>out. out = None) (outcomes h rs (fst (perform h reg w)))"
    using Cons.prems(2) by simp_all
  have s: "sound (fst (perform h reg w))" using Cons.prems(1) by (rule perform_sound)
  show ?case
    using Cons.IH[OF s rest] perform_model_keys[OF Cons.prems(1) ok] by auto
qed

lemma run_record:
  "list_all (\<lambda>out. out = None) (outcomes h rs w) \<Longrightarrow>
   scope_record (run h rs w) r =
     scope_record w r @ concat (map (identities_of h) (filter (\<lambda>reg. scope_of reg = r) rs))"
proof (induction rs arbitrary: w)
  case Nil
  then show ?case by simp
next
  case (Cons reg rs)
  have ok: "snd (perform h reg w) = None"
    and rest: "list_all (\<lambda>out. out = None) (outcomes h rs (fst (perform h reg w)))"
    using Cons.prems by simp_all
  show ?case using Cons.IH[OF rest] ok by (simp add: perform_record)
qed

lemma loaded_fold:
  "loaded (fold (\<lambda>id. loadCollection (f id)) ids wl) = loaded wl @ map f ids"
  by (induction ids arbitrary: wl) (simp_all add: loadCollection_def)

lemma initialize_parts:
  "loaded (waterline (initialize eng w)) =
     loaded (waterline w) @ map (js_get (models (collector w))) (Object_keys (models (collector w))) \<and>
   realm_models (initialize eng w) = realm_models w"
  by (simp add: initialize_def Let_def loaded_fold)

lemma js_get_own:
  assumes "list_all (\<lambda>(key, m). is_model m \<and> identity m = key) obj" and "key \<in> fst ` set obj"
  shows "identity (js_get obj key) = key"
proof -
  obtain v where v: "map_of obj key = Some v"
    using assms(2) by (metis map_of_eq_None_iff not_Some_eq)
  then have "(key, v) \<in> set obj" by (rule map_of_SomeD)
  then have "identity v = key" using assms(1) by (auto simp: list_all_iff)
  then show ?thesis using v by (simp add: js_get_def)
qed

lemma loaded_identities:
  assumes "list_all (\<lambda>(key, m). is_model m \<and> identity m = key) obj"
  shows "identity ` set (map (js_get obj) (Object_keys obj)) = fst ` set obj"
proof -
  have "\<And>key. key \<in> fst ` set obj \<Longrightarrow> identity (js_get obj key) = key"
    using assms by (rule js_get_own)
  then have "(\<lambda>key. identity (js_get obj key)) ` (fst ` set obj) = fst ` set obj"
    by (auto simp: image_iff)
  then show ?thesis by (simp add: Object_keys_def image_image)
qed

lemma fold_js_set_keys:
  "''__proto__'' \<notin> set ids \<Longrightarrow>
   fst ` set (fold (\<lambda>id obj. js_set obj id (f id)) ids acc) = fst ` set acc \<union> set ids"
  by (induction ids arbitrary: acc) (auto simp: keys_js_set)

section \<open>Merging fresh keys\<close>

lemma merge_fresh:
  assumes "sound_collector c"
    and "\<And>k. distinct (map fst (entries k c @ fragment k config))"
    and "\<And>k key. key \<in> fst ` set (fragment k config) \<Longrightarrow> \<not> inherited key"
  shows "snd (merge config c) = None \<and>
         (\<forall>k. entries k (fst (merge config c)) = entries k c @ fragment k config)"
proof -
  obtain conns where conns: "connections c = Some conns"
    using sound_connections[OF assms(1)] by blast
  have each: "\<And>k err. store_each err (fragment k config) (entries k c) =
      (entries k c @ fragment k config, None)"
  proof -
    fix k err
    have d: "distinct (map fst (entries k c @ fragment k config))" by (rule assms(2))
    show "store_each err (fragment k config) (entries k c) = (entries k c @ fragment k config, None)"
    proof (rule store_each_fresh)
      show "distinct (map fst (fragment k config))" using d by simp
      show "\<forall>key\<in>fst ` set (fragment k config).
          key \<notin> fst ` set (entries k c) \<and> key \<notin> fst ` set Object_prototype"
        using d assms(3)[of _ k] by (auto simp: inherited_def)
    qed
  qed
  have a: "merged_adapters config c = (adapters c @ fragment Adapter config, None)"
    using each[of "AlreadyRegistered Adapter" Adapter] by (simp add: merged_adapters_def entries_def)
  have n: "merged_connections config conns = (conns @ fragment Connection config, None)"
    using each[of "AlreadyRegistered Connection" Connection] conns
    by (simp add: merged_connections_def entries_def)
  have m: "merged_models config c = (models c @ fragment Model config, None)"
    using each[of "AlreadyRegistered Model" Model] by (simp add: merged_models_def entries_def)
  have "\<And>k. entries k (fst (merge config c)) = entries k c @ fragment k config"
    subgoal for k
      using a n m conns by (cases k) (simp_all add: merge_unfold[OF conns] Let_def entries_def)
    done
  moreover have "snd (merge config c) = None"
    using a n m by (simp add: merge_unfold[OF conns] Let_def)
  ultimately show ?thesis by simp
qed

section \<open>The \<open>teardownOnStop\<close> flag along a sequence of registrations\<close>

lemma options_stage_teardownOnStop:
  "teardownOnStop (fst (options_stage options c)) =
     (case teardownOnStop c of
        Some b \<Rightarrow> Some b
      | None \<Rightarrow> (if snd (set_defaults options c) = None then opt_teardownOnStop options else None))"
  by (auto simp: options_stage_unfold set_teardownOnStop_def set_defaults_teardownOnStop
      split: option.splits)

lemma register_teardownOnStop:
  "teardownOnStop (collector (fst (register h options w))) =
     teardownOnStop (collector w) \<or>
   teardownOnStop (collector (fst (register h options w))) =
     teardownOnStop (fst (options_stage options (collector (set_up h w))))"
  by (auto simp: register_unfold Let_def dogwater_rest split: sum.splits)

lemma set_up_teardownOnStop:
  assumes "sound w"
  shows "teardownOnStop (collector (set_up h w)) = teardownOnStop (collector w)"
proof (cases "is_setup w")
  case True
  then show ?thesis by (simp add: set_up_done)
next
  case False
  then have "collector w = empty_collector" using assms by (simp add: sound_def)
  then show ?thesis using False by (simp add: set_up_def new_collector_empty)
qed

lemma perform_keeps_unset:
  assumes "sound w" and "teardownOnStop (collector w) = None" and "leaves_teardownOnStop reg"
  shows "teardownOnStop (collector (fst (perform h reg w))) = None"
proof (cases reg)
  case (CallDogwater this config)
  then show ?thesis using assms(2) by (simp add: server_dogwater_def dogwater_rest)
next
  case (RegisterPlugin options)
  then have "opt_teardownOnStop options = None" using assms(3) by simp
  then have "teardownOnStop (fst (options_stage options (collector (set_up h w)))) = None"
    using assms(2) set_up_teardownOnStop[OF assms(1), of h]
    by (simp add: options_stage_teardownOnStop)
  then show ?thesis
    using register_teardownOnStop[of h options w] assms(2) RegisterPlugin by auto
qed

lemma perform_keeps_set:
  assumes "sound w" and "teardownOnStop (collector w) = Some b"
  shows "teardownOnStop (collector (fst (perform h reg w))) = Some b"
proof (cases reg)
  case (CallDogwater this config)
  then show ?thesis using assms(2) by (simp add: server_dogwater_def dogwater_rest)
next
  case (RegisterPlugin options)
  have "teardownOnStop (fst (options_stage options (collector (set_up h w)))) = Some b"
    using assms(2) set_up_teardownOnStop[OF assms(1), of h]
    by (simp add: options_stage_teardownOnStop)
  then show ?thesis
    using register_teardownOnStop[of h options w] assms(2) RegisterPlugin by auto
qed

lemma run_keeps_unset:
  "sound w \<Longrightarrow> teardownOnStop (collector w) = None \<Longrightarrow> list_all leaves_teardownOnStop rs \<Longrightarrow>
   teardownOnStop (collector (run h rs w)) = None"
proof (induction rs arbitrary: w)
  case Nil
  then show ?case by simp
next
  case (Cons reg rs)
  have "sound (fst (perform h reg w))" using Cons.prems(1) by (rule perform_sound)
  moreover have "teardownOnStop (collector (fst (perform h reg w))) = None"
    using Cons.prems by (intro perform_keeps_unset) simp_all
  ultimately show ?case using Cons.IH Cons.prems(3) by simp
qed

lemma run_keeps_set:
  "sound w \<Longrightarrow> teardownOnStop (collector w) = Some b \<Longrightarrow>
   teardownOnStop (collector (run h rs w)) = Some b"
proof (induction rs arbitrary: w)
  case Nil
  then show ?case by simp
next
  case (Cons reg rs)
  have "sound (fst (perform h reg w))" using Cons.prems(1) by (rule perform_sound)
  moreover have "teardownOnStop (collector (fst (perform h reg w))) = Some b"
    using Cons.prems by (intro perform_keeps_set)
  ultimately show ?case using Cons.IH by simp
qed

lemma unset_initially: "teardownOnStop (collector initial_world) = None"
  by (simp add: initial_world_def empty_collector_def)

section \<open>The key a failed merge names\<close>

lemma truthy_js_get:
  assumes "truthy (js_get obj key)"
  shows "inherited key \<or> map_of obj key \<noteq> None"
proof (cases "map_of obj key")
  case (Some v)
  then show ?thesis by simp
next
  case None
  then have "map_of Object_prototype key \<noteq> None"
    using assms by (auto simp: js_get_def split: option.splits)
  then have "key \<in> fst ` set Object_prototype" by (simp add: map_of_eq_None_iff)
  then show ?thesis by (simp add: inherited_def)
qed

lemma store_each_error_before:
  "distinct (map fst es) \<Longrightarrow> snd (store_each err es t) = Some e \<Longrightarrow>
   \<exists>name \<in> fst ` set es. e = err name \<and> truthy (js_get t name)"
proof (induction es arbitrary: t)
  case Nil
  then show ?case by simp
next
  case (Cons p es)
  obtain name x where p: "p = (name, x)" by (cases p)
  show ?case
  proof (cases "truthy (js_get t name)")
    case True
    then have "e = err name" using Cons.prems(2) p by simp
    then show ?thesis using True p by auto
  next
    case False
    then have rest: "snd (store_each err es (js_set t name x)) = Some e"
      using Cons.prems(2) p by simp
    have d: "distinct (map fst es)" and fresh: "name \<notin> fst ` set es"
      using Cons.prems(1) p by auto
    obtain name' where n: "name' \<in> fst ` set es" "e = err name'"
      "truthy (js_get (js_set t name x) name')"
      using Cons.IH[OF d rest] by auto
    have "name' \<noteq> name" using n(1) fresh by auto
    then have "truthy (js_get t name')" using n(3) by (simp add: js_get_js_set_other)
    then show ?thesis using n(1,2) by auto
  qed
qed

lemma merge_error_before:
  assumes "sound_collector c" and "\<And>k. distinct (map fst (fragment k config))"
    and "snd (merge config c) = Some e"
  shows "\<exists>k key. e = AlreadyRegistered k key \<and> key \<in> fst ` set (fragment k config) \<and>
           (inherited key \<or> stored k c key \<noteq> None)"
proof -
  obtain conns where conns: "connections c = Some conns"
    using sound_connections[OF assms(1)] by blast
  consider (a) "snd (merged_adapters config c) = Some e"
    | (n) "snd (merged_connections config conns) = Some e"
    | (m) "snd (merged_models config c) = Some e"
    using assms(3) by (auto simp: merge_unfold[OF conns] Let_def split: if_splits)
  then show ?thesis
  proof cases
    case a
    have "\<exists>name \<in> fst ` set (fragment Adapter config).
        e = AlreadyRegistered Adapter name \<and> truthy (js_get (adapters c) name)"
    proof (rule store_each_error_before)
      show "distinct (map fst (fragment Adapter config))" by (rule assms(2))
      show "snd (store_each (AlreadyRegistered Adapter) (fragment Adapter config) (adapters c)) =
          Some e"
        using a by (simp add: merged_adapters_def)
    qed
    then obtain key where key: "key \<in> fst ` set (fragment Adapter config)"
      "e = AlreadyRegistered Adapter key" "truthy (js_get (adapters c) key)"
      by auto
    have "inherited key \<or> stored Adapter c key \<noteq> None"
      using truthy_js_get[OF key(3)] by (simp add: stored_def)
    then show ?thesis using key(1,2) by auto
  next
    case n
    have "\<exists>name \<in> fst ` set (fragment Connection config).
        e = AlreadyRegistered Connection name \<and> truthy (js_get conns name)"
    proof (rule store_each_error_before)
      show "distinct (map fst (fragment Connection config))" by (rule assms(2))
      show "snd (store_each (AlreadyRegistered Connection) (fragment Connection config) conns) =
          Some e"
        using n by (simp add: merged_connections_def)
    qed
    then obtain key where key: "key \<in> fst ` set (fragment Connection config)"
      "e = AlreadyRegistered Connection key" "truthy (js_get conns key)"
      by auto
    have "inherited key \<or> stored Connection c key \<noteq> None"
      using truthy_js_get[OF key(3)] conns by (simp add: stored_def)
    then show ?thesis using key(1,2) by auto
  next
    case m
    have "\<exists>name \<in> fst ` set (fragment Model config).
        e = AlreadyRegistered Model name \<and> truthy (js_get (models c) name)"
    proof (rule store_each_error_before)
      show "distinct (map fst (fragment Model config))" by (rule assms(2))
      show "snd (store_each (AlreadyRegistered Model) (fragment Model config) (models c)) =
          Some e"
        using m by (simp add: merged_models_def)
    qed
    then obtain key where key: "key \<in> fst ` set (fragment Model config)"
      "e = AlreadyRegistered Model key" "truthy (js_get (models c) key)"
      by auto
    have "inherited key \<or> stored Model c key \<noteq> None"
      using truthy_js_get[OF key(3)] by (simp add: stored_def)
    then show ?thesis using key(1,2) by auto
  qed
qed

section \<open>Registrations once the flag is set\<close>

lemma register_valid:
  assumes "Schema_plugin options"
  shows "is_setup (fst (register h options w))"
    and "teardownOnStop (collector (fst (register h options w))) =
           teardownOnStop (fst (options_stage options (collector (set_up h w))))"
proof -
  let ?w1 = "set_up h w"
  let ?s = "options_stage options (collector ?w1)"
  have up: "is_setup ?w1" by (simp add: set_up_def)
  show "is_setup (fst (register h options w))"
    using assms up by (auto simp: register_unfold Let_def dogwater_setup split: sum.splits)
  show "teardownOnStop (collector (fst (register h options w))) = teardownOnStop (fst ?s)"
    using assms by (auto simp: register_unfold Let_def dogwater_rest split: sum.splits)
qed

lemma perform_setup: "is_setup w \<Longrightarrow> is_setup (fst (perform h reg w))"
proof (cases reg)
  case (RegisterPlugin options)
  assume "is_setup w"
  then show ?thesis
    using RegisterPlugin register_valid(1)[of options h w]
    by (cases "Schema_plugin options") (simp_all add: register_unfold)
next
  case (CallDogwater this config)
  assume "is_setup w"
  then show ?thesis using CallDogwater by (simp add: server_dogwater_def dogwater_setup)
qed

lemma run_setup: "is_setup w \<Longrightarrow> is_setup (run h rs w)"
  by (induction rs arbitrary: w) (simp_all add: perform_setup)

lemma refused_when_set:
  assumes "is_setup w" and "teardownOnStop (collector w) = Some b"
    and "Schema_plugin options" and "opt_teardownOnStop options \<noteq> None"
    and "d = snd (set_defaults options (collector w))"
  shows "snd (register h options w) =
           (case d of None \<Rightarrow> Some TeardownOnStopAlreadySet | Some e \<Rightarrow> Some e) \<and>
         (d = None \<or> (\<exists>key. d = Some (DefaultAlreadySet key)))"
proof -
  let ?c = "collector w"
  obtain b' where b': "opt_teardownOnStop options = Some b'" using assms(4) by auto
  have dd: "snd (set_defaults options ?c) = d" using assms(5) by simp
  have late: "set_teardownOnStop options (fst (set_defaults options ?c)) =
      (fst (set_defaults options ?c), Some TeardownOnStopAlreadySet)"
    unfolding set_teardownOnStop_def b' by (simp add: set_defaults_teardownOnStop assms(2))
  have reg: "snd (register h options w) = snd (options_stage options ?c)"
  proof -
    have "snd (options_stage options ?c) \<noteq> None"
      unfolding options_stage_unfold using late by (cases "snd (set_defaults options ?c)") simp_all
    then show ?thesis
      using assms(3) set_up_done[OF assms(1), of h]
      by (simp add: register_unfold[of h options w] Let_def)
  qed
  show ?thesis
  proof (cases d)
    case None
    then have "snd (options_stage options ?c) = Some TeardownOnStopAlreadySet"
      unfolding options_stage_unfold using dd late by simp
    then show ?thesis using None reg by simp
  next
    case (Some e)
    then have e: "snd (set_defaults options ?c) = Some e" using dd by simp
    then obtain key where key: "e = DefaultAlreadySet key" using set_defaults_error by blast
    have "snd (options_stage options ?c) = Some e"
      unfolding options_stage_unfold using e by simp
    then show ?thesis using Some reg key by simp
  qed
qed

section \<open>Entries as maps\<close>

lemma stored_entries: "stored k c = map_of (entries k c)"
  by (cases k) (auto simp: stored_def entries_def split: option.splits)

lemma map_of_append_distinct:
  assumes "distinct (map fst (xs @ ys))"
  shows "map_of (xs @ ys) = map_of xs ++ map_of ys"
proof -
  have "dom (map_of xs) \<inter> dom (map_of ys) = {}"
    using assms by (auto simp: dom_map_of_conv_image_fst)
  then have "map_of xs ++ map_of ys = map_of ys ++ map_of xs" by (rule map_add_comm)
  then show ?thesis by simp
qed

section \<open>Shutdown\<close>

text \<open>
  Claim C4. On shutdown, when \<open>teardownOnStop\<close> is still unset the teardown of the ORM
  engine is invoked (once more than before); when it was set to false, shutdown leaves
  everything as it is and never invokes teardown. The flag is still unset after any
  sequence of registrations of which none supplies the option; and once a registration
  that supplied false has succeeded, it stays false whatever is registered later.
\<close>

theorem stop_teardown_policy:
  "(teardownOnStop (collector w) = None \<longrightarrow>
      teardowns (waterline (stop w)) = Suc (teardowns (waterline w))) \<and>
   (teardownOnStop (collector w) = Some False \<longrightarrow> stop w = w) \<and>
   (list_all leaves_teardownOnStop rs \<longrightarrow>
      teardowns (waterline (stop (run h rs initial_world))) =
        Suc (teardowns (waterline (run h rs initial_world)))) \<and>
   (snd (register h options (run h rs initial_world)) = None \<and>
    opt_teardownOnStop options = Some False \<longrightarrow>
      stop (run h rs' (fst (register h options (run h rs initial_world)))) =
        run h rs' (fst (register h options (run h rs initial_world))))"
proof -
  have state: "\<And>w. teardownOnStop (collector w) = None \<Longrightarrow>
      teardowns (waterline (stop w)) = Suc (teardowns (waterline w))"
    "\<And>w. teardownOnStop (collector w) = Some False \<Longrightarrow> stop w = w"
    by (simp_all add: stop_def teardown_def)
  have never: "list_all leaves_teardownOnStop rs \<Longrightarrow>
      teardownOnStop (collector (run h rs initial_world)) = None"
    using sound_initial_world unset_initially by (rule run_keeps_unset)
  have off: "teardownOnStop (collector (run h rs' (fst (register h options (run h rs initial_world))))) =
      Some False"
    if "snd (register h options (run h rs initial_world)) = None"
      and "opt_teardownOnStop options = Some False"
  proof -
    have "sound (fst (register h options (run h rs initial_world)))"
      using reachable_sound by (rule register_sound)
    moreover have "teardownOnStop (collector (fst (register h options (run h rs initial_world)))) =
        Some False"
      using that by (rule register_success(2))
    ultimately show ?thesis by (rule run_keeps_set)
  qed
  show ?thesis using state never off by blast
qed

theorem stop_teardown_policy_witness:
  "teardownOnStop (collector ready_world) = None \<and>
   teardowns (waterline ready_world) = 0 \<and>
   teardowns (waterline (stop ready_world)) = 1 \<and>
   list_all leaves_teardownOnStop two_scopes \<and>
   teardowns (waterline (stop (run example_host two_scopes initial_world))) = 1 \<and>
   teardownOnStop (collector quiet_world) = Some False \<and>
   stop quiet_world = quiet_world \<and>
   snd (register example_host quiet_options (run example_host [] initial_world)) = None \<and>
   stop (run example_host two_scopes quiet_world) = run example_host two_scopes quiet_world"
proof -
  have unset: "teardownOnStop (collector ready_world) = None" by code_simp
  have before: "teardowns (waterline ready_world) = 0" by code_simp
  have off: "teardownOnStop (collector quiet_world) = Some False" by code_simp
  have leaves: "list_all leaves_teardownOnStop two_scopes" by code_simp
  have zero: "teardowns (waterline (run example_host two_scopes initial_world)) = 0" by code_simp
  have first: "snd (register example_host quiet_options (run example_host [] initial_world)) = None"
    by code_simp
  have given: "opt_teardownOnStop quiet_options = Some False" by code_simp
  have q: "fst (register example_host quiet_options (run example_host [] initial_world)) = quiet_world"
    by (simp add: quiet_world_def)
  show ?thesis
    using stop_teardown_policy[of ready_world two_scopes example_host quiet_options two_scopes]
      stop_teardown_policy[of quiet_world "[]" example_host quiet_options two_scopes]
      unset before off leaves zero first given q by simp
qed

section \<open>Normalization of the configuration\<close>

text \<open>
  Claim C7. Registering a bare sequence of models \<open>ms\<close> gives the same result and leaves
  the same state (collector and Scope Records) as registering the object \<open>{models: ms}\<close>,
  whether its adapters and connections are absent or empty.
\<close>

theorem bare_models_as_object:
  "dogwater (ConfigArray ms) this w =
     dogwater (ConfigObject \<lparr>cfg_adapters = None, cfg_connections = None,
                             cfg_models = Some (JArr ms)\<rparr>) this w \<and>
   dogwater (ConfigArray ms) this w =
     dogwater (ConfigObject \<lparr>cfg_adapters = Some [], cfg_connections = Some [],
                             cfg_models = Some (JArr ms)\<rparr>) this w"
proof -
  let ?none = "ConfigObject \<lparr>cfg_adapters = None, cfg_connections = None,
      cfg_models = Some (JArr ms)\<rparr>"
  let ?empty = "ConfigObject \<lparr>cfg_adapters = Some [], cfg_connections = Some [],
      cfg_models = Some (JArr ms)\<rparr>"
  have valid: "Schema_dogwater ?none = Schema_dogwater (ConfigArray ms)"
    "Schema_dogwater ?empty = Schema_dogwater (ConfigArray ms)"
    by (simp_all add: Schema_dogwater_def Schema_config_object_def is_models_def)
  have parts: "adapters_of ?none = adapters_of (ConfigArray ms)"
    "adapters_of ?empty = adapters_of (ConfigArray ms)"
    "connections_of ?none = connections_of (ConfigArray ms)"
    "connections_of ?empty = connections_of (ConfigArray ms)"
    "models_of ?none = models_of (ConfigArray ms)"
    "models_of ?empty = models_of (ConfigArray ms)"
    by (simp_all add: adapters_of_def connections_of_def models_of_def coerce_def)
  show ?thesis
    unfolding dogwater_def merge_def valid parts by simp
qed

section \<open>The accessor before initialization\<close>

text \<open>
  Claim C8. While the ORM engine has not produced its collections, both variants of the
  collections accessor return the empty mapping; no path of the accessor throws. That
  is the case after any sequence of registrations, as long as initialization has not
  run.
\<close>

theorem collections_before_initialization:
  "(orm_collections (waterline w) = None \<longrightarrow>
      collections True this w = [] \<and> collections False this w = []) \<and>
   collections True this (run h rs initial_world) = [] \<and>
   collections False this (run h rs initial_world) = []"
proof -
  have "sound (run h rs initial_world)" by (rule reachable_sound)
  then have "orm_collections (waterline (run h rs initial_world)) = None" by (simp add: sound_def)
  then show ?thesis by (simp add: collections_def)
qed

theorem collections_before_initialization_witness:
  "orm_collections (waterline (run example_host two_scopes initial_world)) = None \<and>
   realm_models (run example_host two_scopes initial_world) (Plugin ''a'') =
     Some [''user'', ''session''] \<and>
   collections True (Plugin ''a'') (run example_host two_scopes initial_world) = [] \<and>
   collections False (Plugin ''a'') (run example_host two_scopes initial_world) = []"
proof -
  have none: "orm_collections (waterline (run example_host two_scopes initial_world)) = None"
    by code_simp
  have own: "realm_models (run example_host two_scopes initial_world) (Plugin ''a'') =
     Some [''user'', ''session'']"
    by code_simp
  show ?thesis
    using collections_before_initialization[of "run example_host two_scopes initial_world"
        "Plugin ''a''" example_host two_scopes] none own
    by simp
qed

section \<open>The version test\<close>

text \<open>
  Claim C10 says that with Waterline 0.13 the collector's \<open>connections\<close> becomes
  undefined and \<open>datastores\<close> takes its place, after which merging a connection throws a
  TypeError and initialization passes \<open>connections: undefined\<close>. The code compares the
  string \<open>MAJOR\<close> with the number 0 by \<open>===\<close>, so the test fails for every version. With
  version 0.13.0: \<open>connections\<close> stays an object, \<open>datastores\<close> is never created, a
  fragment with a connection merges, and initialization passes the object.
\<close>

theorem version_0_13_keeps_connections:
  "waterline_package_version example_host = ''0.13.0'' \<and>
   MAJOR (semverSplit ''0.13.0'') = JStr ''0'' \<and>
   MINOR (semverSplit ''0.13.0'') = JStr ''13'' \<and>
   greater_equal_num (JStr ''13'') 13 \<and>
   \<not> strict_equals_num (JStr ''0'') 0 \<and>
   \<not> renames_connections (semverSplit ''0.13.0'') \<and>
   connections (collector ready_world) = Some [] \<and>
   datastores (collector ready_world) = None \<and>
   snd (server_dogwater
          (ConfigObject \<lparr>cfg_adapters = None, cfg_connections = Some [(''db'', JObj [])],
                          cfg_models = None\<rparr>) Root ready_world) = None \<and>
   initialized_with (waterline (initialize (\<lambda>defs config. Some []) ready_world)) =
     Some \<lparr>orm_adapters = [], orm_connections = Some [], orm_defaults = []\<rparr>"
  by code_simp

section \<open>Defaults\<close>

text \<open>
  A default whose stored value is truthy cannot be set again: the registration fails
  with the error for a default of its own, and the stored value stays.
\<close>

theorem truthy_default_set_once:
  assumes "is_setup w" and "Schema_plugin options" and "opt_defaults options = Some d"
    and "key \<in> fst ` set d" and "map_of (defaults (collector w)) key = Some v" and "truthy v"
  shows "(\<exists>key'. key' \<in> fst ` set d \<and> snd (register h options w) = Some (DefaultAlreadySet key')) \<and>
         map_of (defaults (collector (fst (register h options w)))) key = Some v"
proof -
  let ?c = "collector w"
  let ?r = "store_each DefaultAlreadySet (entries_of d) (defaults ?c)"
  have sd: "set_defaults options ?c = (?c\<lparr>defaults := fst ?r\<rparr>, snd ?r)"
    using assms(3) by (simp add: set_defaults_def Let_def split: prod.splits)
  have "truthy (js_get (defaults ?c) key)" using assms(5,6) by (simp add: js_get_def)
  moreover have "key \<in> fst ` set (entries_of d)" using assms(4) by (simp add: keys_entries_of)
  ultimately have "snd ?r \<noteq> None" by (rule store_each_fails)
  then obtain e where e: "snd ?r = Some e" by blast
  then have "\<exists>key' \<in> fst ` set (entries_of d). e = DefaultAlreadySet key'"
    by (rule store_each_error)
  then obtain key' where key': "key' \<in> fst ` set d" "e = DefaultAlreadySet key'"
    by (auto simp: keys_entries_of)
  have stage: "options_stage options ?c = (?c\<lparr>defaults := fst ?r\<rparr>, Some e)"
    using sd e by (simp add: options_stage_unfold)
  have reg: "register h options w = (w\<lparr>collector := ?c\<lparr>defaults := fst ?r\<rparr>\<rparr>, Some e)"
    using assms(1,2) stage by (simp add: register_unfold Let_def set_up_done)
  have "map_of (fst ?r) key = Some v" using assms(5,6) by (rule store_each_keeps)
  then show ?thesis using reg key' by auto
qed

theorem truthy_default_set_once_witness:
  "snd (register example_host safe_options initial_world) = None \<and>
   snd (register example_host safe_options
         (fst (register example_host safe_options initial_world))) =
     Some (DefaultAlreadySet ''migrate'') \<and>
   map_of (defaults (collector (fst (register example_host safe_options
         (fst (register example_host safe_options initial_world)))))) ''migrate'' =
     Some (JStr ''safe'')"
proof -
  let ?w = "fst (register example_host safe_options initial_world)"
  have first: "snd (register example_host safe_options initial_world) = None" by code_simp
  have up: "is_setup ?w" by code_simp
  have valid: "Schema_plugin safe_options" by code_simp
  have d: "opt_defaults safe_options = Some [(''migrate'', JStr ''safe'')]" by code_simp
  have k: "''migrate'' \<in> fst ` set [(''migrate'', JStr ''safe'')]" by simp
  have st: "map_of (defaults (collector ?w)) ''migrate'' = Some (JStr ''safe'')" by code_simp
  have t: "truthy (JStr ''safe'')" by simp
  show ?thesis
    using truthy_default_set_once[OF up valid d k st t, of example_host] first by auto
qed

text \<open>
  Claim C6 says a default key can be set only once, whatever value it holds. The code
  tests \<open>!collector.defaults[key]\<close>: a falsy stored value counts as not set. Here
  \<open>autoPK: false\<close> is registered, then \<open>autoPK: true\<close>: the second registration succeeds and
  overwrites the first value.
\<close>

theorem falsy_default_set_twice:
  "snd (register example_host (no_options\<lparr>opt_defaults := Some [(''autoPK'', JBool False)]\<rparr>)
         initial_world) = None \<and>
   snd (register example_host (no_options\<lparr>opt_defaults := Some [(''autoPK'', JBool True)]\<rparr>)
         (fst (register example_host
                 (no_options\<lparr>opt_defaults := Some [(''autoPK'', JBool False)]\<rparr>)
                 initial_world))) = None \<and>
   defaults (collector (fst
     (register example_host (no_options\<lparr>opt_defaults := Some [(''autoPK'', JBool True)]\<rparr>)
         (fst (register example_host
                 (no_options\<lparr>opt_defaults := Some [(''autoPK'', JBool False)]\<rparr>)
                 initial_world))))) = [(''autoPK'', JBool True)]"
  by code_simp

section \<open>Disjoint registrations\<close>

text \<open>
  Fragments whose keys are all distinct, new to the collector and not inherited by
  plain objects merge without error, each entry being added after those the object
  held.
\<close>

lemma disjoint_registrations_append:
  assumes "sound w" and "is_setup w"
    and "list_all (\<lambda>(this, config). Schema_dogwater config) calls"
    and "\<forall>k. distinct (map fst (entries k (collector w) @ supplied k calls))"
    and "\<forall>k. list_all (\<lambda>(key, v). \<not> inherited key) (supplied k calls)"
  shows "list_all (\<lambda>out. out = None)
           (outcomes h (map (\<lambda>(this, config). CallDogwater this config) calls) w) \<and>
         (\<forall>k. entries k (collector (run h (map (\<lambda>(this, config). CallDogwater this config) calls) w)) =
                entries k (collector w) @ supplied k calls)"
  using assms
proof (induction calls arbitrary: w)
  case Nil
  then show ?case by (simp add: supplied_def)
next
  case (Cons call calls)
  obtain this config where call: "call = (this, config)" by (cases call)
  have valid: "Schema_dogwater config" using Cons.prems(3) call by simp
  have sc: "sound_collector (collector w)" using Cons.prems(1) by (simp add: sound_def)
  have sup: "\<And>k. supplied k ((this, config) # calls) = fragment k config @ supplied k calls"
    by (simp add: supplied_def)
  note prems = Cons.prems[unfolded call]
  have d: "\<And>k. distinct (map fst (entries k (collector w) @ fragment k config))"
  proof -
    fix k
    have "distinct (map fst (entries k (collector w) @ fragment k config @ supplied k calls))"
      using prems(4) by (simp only: sup)
    then show "distinct (map fst (entries k (collector w) @ fragment k config))" by auto
  qed
  have i: "\<And>k key. key \<in> fst ` set (fragment k config) \<Longrightarrow> \<not> inherited key"
  proof -
    fix k key
    assume "key \<in> fst ` set (fragment k config)"
    then obtain v where "(key, v) \<in> set (fragment k config)" by auto
    moreover have "list_all (\<lambda>(key, v). \<not> inherited key) (fragment k config)"
      using prems(5) by (simp add: sup)
    ultimately show "\<not> inherited key" by (auto simp: list_all_iff)
  qed
  have step: "snd (merge config (collector w)) = None"
    "\<And>k. entries k (fst (merge config (collector w))) = entries k (collector w) @ fragment k config"
    using merge_fresh[OF sc d i] by simp_all
  let ?w1 = "fst (server_dogwater config this w)"
  have c1: "collector ?w1 = fst (merge config (collector w))"
    and ok: "snd (server_dogwater config this w) = None"
    using prems(2) dogwater_collector[OF valid, of this w] step(1)
    by (simp_all add: server_dogwater_def)
  have s1: "sound ?w1"
    using perform_sound[OF prems(1), of h "CallDogwater this config"] by simp
  have u1: "is_setup ?w1" using prems(2) by (simp add: server_dogwater_def dogwater_setup)
  have v1: "list_all (\<lambda>(this, config). Schema_dogwater config) calls" using prems(3) by simp
  have d1: "\<forall>k. distinct (map fst (entries k (collector ?w1) @ supplied k calls))"
  proof
    fix k
    have "distinct (map fst (entries k (collector w) @ fragment k config @ supplied k calls))"
      using prems(4) by (simp only: sup)
    then show "distinct (map fst (entries k (collector ?w1) @ supplied k calls))"
      by (simp add: c1 step(2))
  qed
  have i1: "\<forall>k. list_all (\<lambda>(key, v). \<not> inherited key) (supplied k calls)"
    using prems(5) by (simp add: sup)
  show ?case
    using Cons.IH[OF s1 u1 v1 d1 i1] ok by (simp add: call c1 step(2) sup)
qed

text \<open>
  So the collector then maps, for each kind, every key it held before and every key of
  the fragments to its definition, and no other key.
\<close>

theorem disjoint_registrations_union:
  assumes "sound w" and "is_setup w"
    and "list_all (\<lambda>(this, config). Schema_dogwater config) calls"
    and "\<forall>k. distinct (map fst (entries k (collector w) @ supplied k calls))"
    and "\<forall>k. list_all (\<lambda>(key, v). \<not> inherited key) (supplied k calls)"
  shows "list_all (\<lambda>out. out = None)
           (outcomes h (map (\<lambda>(this, config). CallDogwater this config) calls) w) \<and>
         (\<forall>k. stored k (collector (run h (map (\<lambda>(this, config). CallDogwater this config) calls) w)) =
                stored k (collector w) ++ map_of (supplied k calls))"
proof -
  note lists = disjoint_registrations_append[OF assms, of h]
  have "\<And>k. stored k (collector (run h (map (\<lambda>(this, config). CallDogwater this config) calls) w)) =
      stored k (collector w) ++ map_of (supplied k calls)"
  proof -
    fix k
    have "distinct (map fst (entries k (collector w) @ supplied k calls))" using assms(4) by simp
    then have "map_of (entries k (collector w) @ supplied k calls) =
        map_of (entries k (collector w)) ++ map_of (supplied k calls)"
      by (rule map_of_append_distinct)
    then show "stored k (collector (run h (map (\<lambda>(this, config). CallDogwater this config) calls) w)) =
      stored k (collector w) ++ map_of (supplied k calls)"
      using lists by (simp add: stored_entries)
  qed
  then show ?thesis using lists by simp
qed

theorem disjoint_registrations_union_witness:
  "list_all (\<lambda>out. out = None)
     (outcomes example_host (map (\<lambda>(this, config). CallDogwater this config) disjoint_calls)
        ready_world) \<and>
   stored Adapter (collector (run example_host
       (map (\<lambda>(this, config). CallDogwater this config) disjoint_calls) ready_world)) ''memory'' =
     Some (JObj []) \<and>
   stored Adapter (collector (run example_host
       (map (\<lambda>(this, config). CallDogwater this config) disjoint_calls) ready_world)) ''disk'' =
     Some (JObj []) \<and>
   stored Model (collector (run example_host
       (map (\<lambda>(this, config). CallDogwater this config) disjoint_calls) ready_world)) ''product'' =
     Some (model_named ''product'') \<and>
   stored Model (collector (run example_host
       (map (\<lambda>(this, config). CallDogwater this config) disjoint_calls) ready_world)) ''other'' =
     None"
proof -
  have s: "sound ready_world"
    using reachable_sound[of example_host "[RegisterPlugin no_options]"]
    by (simp add: ready_world_def)
  have up: "is_setup ready_world" by code_simp
  have valid: "list_all (\<lambda>(this, config). Schema_dogwater config) disjoint_calls" by code_simp
  have da: "distinct (map fst (entries Adapter (collector ready_world) @ supplied Adapter disjoint_calls))"
    by code_simp
  have dn: "distinct (map fst (entries Connection (collector ready_world) @
      supplied Connection disjoint_calls))"
    by code_simp
  have dm: "distinct (map fst (entries Model (collector ready_world) @ supplied Model disjoint_calls))"
    by code_simp
  have d: "\<forall>k. distinct (map fst (entries k (collector ready_world) @ supplied k disjoint_calls))"
  proof
    fix k
    show "distinct (map fst (entries k (collector ready_world) @ supplied k disjoint_calls))"
      using da dn dm by (cases k) simp_all
  qed
  have ia: "list_all (\<lambda>(key, v). \<not> inherited key) (supplied Adapter disjoint_calls)" by code_simp
  have im: "list_all (\<lambda>(key, v). \<not> inherited key) (supplied Model disjoint_calls)" by code_simp
  have ic: "list_all (\<lambda>(key, v). \<not> inherited key) (supplied Connection disjoint_calls)"
    by code_simp
  have i: "\<forall>k. list_all (\<lambda>(key, v). \<not> inherited key) (supplied k disjoint_calls)"
  proof
    fix k
    show "list_all (\<lambda>(key, v). \<not> inherited key) (supplied k disjoint_calls)"
      using ia im ic by (cases k) simp_all
  qed
  have a1: "(stored Adapter (collector ready_world) ++ map_of (supplied Adapter disjoint_calls))
      ''memory'' = Some (JObj [])"
    by code_simp
  have a2: "(stored Adapter (collector ready_world) ++ map_of (supplied Adapter disjoint_calls))
      ''disk'' = Some (JObj [])"
    by code_simp
  have m1: "(stored Model (collector ready_world) ++ map_of (supplied Model disjoint_calls))
      ''product'' = Some (model_named ''product'')"
    by code_simp
  have m2: "(stored Model (collector ready_world) ++ map_of (supplied Model disjoint_calls))
      ''other'' = None"
    by code_simp
  show ?thesis
    using disjoint_registrations_union[OF s up valid d i, of example_host] a1 a2 m1 m2
    by simp
qed

text \<open>
  Claim C2 says registrations with pairwise disjoint keys all succeed. The code tests
  \<open>!collector.models[id]\<close> on an object that inherits from \<open>Object.prototype\<close>: in a
  collector that is still empty, the first model with identity \<open>constructor\<close> is
  rejected as already registered.
\<close>

theorem inherited_name_rejected:
  "collector ready_world = empty_collector \<and>
   snd (server_dogwater (ConfigArray [model_named ''constructor'']) (Plugin ''a'') ready_world) =
     Some (AlreadyRegistered Model ''constructor'')"
  by code_simp

section \<open>Setting \<open>teardownOnStop\<close> twice\<close>

text \<open>
  Claim C5, as the code has it. Take two valid registrations that both supply
  \<open>teardownOnStop\<close>, the first run in any state that registrations reach, the second
  after any further registrations. The flag is set once the first has run, whether the
  first then succeeds or fails later, unless its defaults were refused while the flag
  was still unset: the defaults are collected first, and a registration they stop never
  reaches the flag. With the flag set, the second registration fails, whatever the two
  values are: with the error of its own defaults when one of them is refused, and
  otherwise with the error that \<open>teardownOnStop\<close> can only be specified once.
\<close>

theorem teardownOnStop_only_once:
  assumes "w = run h rs0 initial_world"
    and "Schema_plugin options1" and "opt_teardownOnStop options1 \<noteq> None"
    and "w1 = fst (register h options1 w)"
    and "w2 = run h rs w1"
    and "Schema_plugin options2" and "opt_teardownOnStop options2 \<noteq> None"
    and "d = snd (set_defaults options2 (collector w2))"
  shows "(teardownOnStop (collector w1) \<noteq> None \<longleftrightarrow>
            snd (set_defaults options1 (collector (set_up h w))) = None \<or>
            teardownOnStop (collector w) \<noteq> None) \<and>
         (teardownOnStop (collector w1) \<noteq> None \<longrightarrow>
            snd (register h options2 w2) =
              (case d of None \<Rightarrow> Some TeardownOnStopAlreadySet | Some e \<Rightarrow> Some e) \<and>
            (d = None \<or> (\<exists>key. d = Some (DefaultAlreadySet key))))"
proof -
  have sw: "sound w" using assms(1) by (simp add: reachable_sound)
  have sw1: "sound w1" unfolding assms(4) using sw by (rule register_sound)
  have up1: "is_setup w1" unfolding assms(4) using assms(2) by (rule register_valid(1))
  obtain b1 where b1: "opt_teardownOnStop options1 = Some b1" using assms(3) by auto
  have "teardownOnStop (collector w1) =
      teardownOnStop (fst (options_stage options1 (collector (set_up h w))))"
    unfolding assms(4) using assms(2) by (rule register_valid(2))
  then have reached: "teardownOnStop (collector w1) \<noteq> None \<longleftrightarrow>
      snd (set_defaults options1 (collector (set_up h w))) = None \<or>
      teardownOnStop (collector w) \<noteq> None"
    using b1 set_up_teardownOnStop[OF sw, of h]
    by (auto simp: options_stage_teardownOnStop split: option.splits)
  have refused: "snd (register h options2 w2) =
        (case d of None \<Rightarrow> Some TeardownOnStopAlreadySet | Some e \<Rightarrow> Some e) \<and>
      (d = None \<or> (\<exists>key. d = Some (DefaultAlreadySet key)))"
    if flagged: "teardownOnStop (collector w1) \<noteq> None"
  proof -
    obtain b where b: "teardownOnStop (collector w1) = Some b" using flagged by auto
    have flag: "teardownOnStop (collector w2) = Some b"
      unfolding assms(5) using sw1 b by (rule run_keeps_set)
    have up2: "is_setup w2" unfolding assms(5) using up1 by (rule run_setup)
    show ?thesis using up2 flag assms(6) assms(7) assms(8) by (rule refused_when_set)
  qed
  show ?thesis using reached refused by blast
qed

theorem teardownOnStop_only_once_witness:
  "snd (register example_host unresolved_options initial_world) =
     Some (ResolutionError ''./models'') \<and>
   teardownOnStop (collector (fst (register example_host unresolved_options initial_world))) =
     Some True \<and>
   snd (register example_host quiet_options
          (run example_host [CallDogwater (Plugin ''a'') users_config]
             (fst (register example_host unresolved_options initial_world)))) =
     Some TeardownOnStopAlreadySet \<and>
   snd (register example_host safe_options
          (run example_host [RegisterPlugin migrating_options]
             (fst (register example_host unresolved_options initial_world)))) =
     Some (DefaultAlreadySet ''migrate'')"
proof -
  let ?w1 = "fst (register example_host unresolved_options initial_world)"
  let ?w2 = "run example_host [CallDogwater (Plugin ''a'') users_config] ?w1"
  let ?w3 = "run example_host [RegisterPlugin migrating_options] ?w1"
  have start: "initial_world = run example_host [] initial_world" by simp
  have failed: "snd (register example_host unresolved_options initial_world) =
      Some (ResolutionError ''./models'')"
    by code_simp
  have v1: "Schema_plugin unresolved_options" by code_simp
  have t1: "opt_teardownOnStop unresolved_options \<noteq> None" by code_simp
  have flag: "teardownOnStop (collector ?w1) = Some True" by code_simp
  have v2: "Schema_plugin quiet_options" by code_simp
  have t2: "opt_teardownOnStop quiet_options \<noteq> None" by code_simp
  have d2: "snd (set_defaults quiet_options (collector ?w2)) = None" by code_simp
  have v3: "Schema_plugin safe_options" by code_simp
  have t3: "opt_teardownOnStop safe_options \<noteq> None" by code_simp
  have d3: "snd (set_defaults safe_options (collector ?w3)) = Some (DefaultAlreadySet ''migrate'')"
    by code_simp
  show ?thesis
    using teardownOnStop_only_once[OF start v1 t1 refl refl v2 t2 refl,
        of "[CallDogwater (Plugin ''a'') users_config]"]
      teardownOnStop_only_once[OF start v1 t1 refl refl v3 t3 refl,
        of "[RegisterPlugin migrating_options]"]
      failed flag d2 d3 by simp
qed

text \<open>
  The claim as stated promises the \<open>teardownOnStop\<close> error for every such pair. Two
  registrations with the same options \<open>{defaults: {migrate: 'safe'}, teardownOnStop: true}\<close>:
  the second fails on the default. And when \<open>migrate\<close> is set already, a registration
  with these options fails on the default before it sets the flag, so that a later
  registration with \<open>teardownOnStop: false\<close> succeeds.
\<close>

theorem teardownOnStop_twice_counterexample:
  "opt_teardownOnStop safe_options = Some True \<and>
   Schema_plugin safe_options \<and>
   snd (register example_host safe_options initial_world) = None \<and>
   snd (register example_host safe_options
          (fst (register example_host safe_options initial_world))) =
     Some (DefaultAlreadySet ''migrate'') \<and>
   snd (register example_host safe_options
          (fst (register example_host safe_options initial_world))) \<noteq>
     Some TeardownOnStopAlreadySet \<and>
   opt_teardownOnStop quiet_options = Some False \<and>
   snd (register example_host safe_options
          (fst (register example_host migrating_options initial_world))) =
     Some (DefaultAlreadySet ''migrate'') \<and>
   snd (register example_host quiet_options
          (fst (register example_host safe_options
                 (fst (register example_host migrating_options initial_world))))) = None"
  by code_simp

section \<open>Duplicate registrations\<close>

text \<open>
  After any sequence of registrations, let a fragment be merged with success and let a
  second, valid fragment reuse an adapter name, a connection name or a model identity
  that the first supplied or that the collector already holds. Then the merge of the
  second fragment fails with the duplicate-registration error for a kind and key of the
  second fragment; when the keys of the second fragment are distinct within each kind,
  that key is one the collector held before the merge, or one that plain objects
  inherit. Every entry of the first fragment was stored and is still stored with the
  same definition after the failure, and so is everything else the collector held.
\<close>

theorem duplicate_registration_rejected:
  assumes "w = run h rs initial_world"
    and "snd (server_dogwater config1 this1 w) = None"
    and "w1 = fst (server_dogwater config1 this1 w)"
    and "Schema_dogwater config2"
    and "key \<in> fst ` set (fragment kind config2)"
    and "key \<in> fst ` set (fragment kind config1) \<union> dom (stored kind (collector w1))"
    and "w2 = fst (server_dogwater config2 this2 w1)"
  shows "(\<exists>kind' key'. snd (server_dogwater config2 this2 w1) = Some (AlreadyRegistered kind' key') \<and>
            key' \<in> fst ` set (fragment kind' config2) \<and>
            ((\<forall>k. distinct (map fst (fragment k config2))) \<longrightarrow>
               inherited key' \<or> stored kind' (collector w1) key' \<noteq> None)) \<and>
         (\<forall>k name v. (name, v) \<in> set (fragment k config1) \<longrightarrow>
            stored k (collector w1) name = Some v \<and> stored k (collector w2) name = Some v) \<and>
         (\<forall>k name v. stored k (collector w1) name = Some v \<longrightarrow>
            stored k (collector w2) name = Some v)"
proof -
  have sw: "sound w" using assms(1) by (simp add: reachable_sound)
  have up: "is_setup w" and valid1: "Schema_dogwater config1"
    using server_dogwater_success[OF assms(2)] by auto
  have sc: "sound_collector (collector w)" using sw by (simp add: sound_def)
  have w1: "w1 = fst (dogwater config1 this1 w)"
    using assms(3) up by (simp add: server_dogwater_def)
  have ok1: "snd (merge config1 (collector w)) = None"
    using assms(2) up dogwater_collector[OF valid1] by (simp add: server_dogwater_def)
  have c1: "collector w1 = fst (merge config1 (collector w))"
    using w1 dogwater_collector[OF valid1] by simp
  have sw1: "sound w1" and up1: "is_setup w1"
    using dogwater_sound[OF sw up] w1 by auto
  have sc1: "sound_collector (collector w1)" using sw1 by (simp add: sound_def)
  have first: "\<And>k name v. (name, v) \<in> set (fragment k config1) \<Longrightarrow>
      stored k (collector w1) name = Some v"
    unfolding c1 using sc valid1 ok1 by (rule merge_stores)
  have c2: "collector w2 = fst (merge config2 (collector w1))"
    and r2: "snd (server_dogwater config2 this2 w1) = snd (merge config2 (collector w1))"
    using assms(7) up1 dogwater_collector[OF assms(4)] by (simp_all add: server_dogwater_def)
  have keeps: "\<And>k name v. stored k (collector w1) name = Some v \<Longrightarrow>
      stored k (collector w2) name = Some v"
    unfolding c2 using sc1 by (rule merge_keeps)
  obtain v where present: "stored kind (collector w1) key = Some v"
  proof (cases "key \<in> fst ` set (fragment kind config1)")
    case True
    then obtain x where "(key, x) \<in> set (fragment kind config1)" by auto
    then show ?thesis using first that by blast
  next
    case False
    then have "key \<in> dom (stored kind (collector w1))" using assms(6) by simp
    then show ?thesis using that by blast
  qed
  have "snd (merge config2 (collector w1)) \<noteq> None"
    using sc1 present assms(5) by (rule merge_fails)
  then obtain e where e: "snd (merge config2 (collector w1)) = Some e" by blast
  have named: "\<exists>kind' key'. e = AlreadyRegistered kind' key' \<and>
      key' \<in> fst ` set (fragment kind' config2) \<and>
      ((\<forall>k. distinct (map fst (fragment k config2))) \<longrightarrow>
         inherited key' \<or> stored kind' (collector w1) key' \<noteq> None)"
  proof (cases "\<forall>k. distinct (map fst (fragment k config2))")
    case True
    then have "\<And>k. distinct (map fst (fragment k config2))" by simp
    then show ?thesis using merge_error_before[OF sc1 _ e] by blast
  next
    case False
    then show ?thesis using merge_error[OF sc1 e] by blast
  qed
  then have "\<exists>kind' key'. snd (server_dogwater config2 this2 w1) = Some (AlreadyRegistered kind' key') \<and>
      key' \<in> fst ` set (fragment kind' config2) \<and>
      ((\<forall>k. distinct (map fst (fragment k config2))) \<longrightarrow>
         inherited key' \<or> stored kind' (collector w1) key' \<noteq> None)"
    using r2 e by simp
  then show ?thesis using first keeps by blast
qed

theorem duplicate_registration_rejected_witness:
  "snd (server_dogwater users_config (Plugin ''a'') ready_world) = None \<and>
   Schema_dogwater clash_config \<and>
   snd (server_dogwater clash_config (Plugin ''b'')
          (fst (server_dogwater users_config (Plugin ''a'') ready_world))) =
     Some (AlreadyRegistered Model ''user'') \<and>
   stored Model (collector (fst (server_dogwater users_config (Plugin ''a'') ready_world)))
     ''user'' = Some (model_named ''user'') \<and>
   stored Model (collector (fst (server_dogwater clash_config (Plugin ''b'')
          (fst (server_dogwater users_config (Plugin ''a'') ready_world))))) ''user'' =
     Some (model_named ''user'') \<and>
   stored Adapter (collector (fst (server_dogwater clash_config (Plugin ''b'')
          (fst (server_dogwater users_config (Plugin ''a'') ready_world))))) ''memory'' =
     Some (JObj [])"
proof -
  let ?w1 = "fst (server_dogwater users_config (Plugin ''a'') ready_world)"
  have reach: "ready_world = run example_host [RegisterPlugin no_options] initial_world"
    by (simp add: ready_world_def)
  have first: "snd (server_dogwater users_config (Plugin ''a'') ready_world) = None"
    by code_simp
  have valid: "Schema_dogwater clash_config" by code_simp
  have k2: "''user'' \<in> fst ` set (fragment Model clash_config)" by code_simp
  have "''user'' \<in> fst ` set (fragment Model users_config)" by code_simp
  then have k1: "''user'' \<in> fst ` set (fragment Model users_config) \<union>
      dom (stored Model (collector ?w1))"
    by simp
  have m: "(''user'', model_named ''user'') \<in> set (fragment Model users_config)" by code_simp
  have a: "(''memory'', JObj []) \<in> set (fragment Adapter users_config)" by code_simp
  have r: "snd (server_dogwater clash_config (Plugin ''b'') ?w1) =
      Some (AlreadyRegistered Model ''user'')" by code_simp
  show ?thesis
    using duplicate_registration_rejected[OF reach first refl valid k2 k1 refl, of "Plugin ''b''"]
      first valid m a r by blast
qed

text \<open>
  Claim C1 says the failed merge names the kind and key that are reused. The code tests
  \<open>!collector.adapters[name]\<close> on an object that inherits from \<open>Object.prototype\<close>, and
  the adapters come before the models. Here the model \<open>user\<close> is registered, and a
  second fragment reuses it and has an adapter called \<open>toString\<close>: the merge fails, and
  the error names the adapter \<open>toString\<close>, which nobody registered and the collector
  does not hold, not the model \<open>user\<close>.
\<close>

theorem unregistered_key_named:
  "snd (server_dogwater (ConfigArray [model_named ''user'']) (Plugin ''a'') ready_world) = None \<and>
   Schema_dogwater shadowed_config \<and>
   stored Model (collector (fst (server_dogwater (ConfigArray [model_named ''user''])
       (Plugin ''a'') ready_world))) ''user'' = Some (model_named ''user'') \<and>
   stored Adapter (collector (fst (server_dogwater (ConfigArray [model_named ''user''])
       (Plugin ''a'') ready_world))) ''toString'' = None \<and>
   snd (server_dogwater shadowed_config (Plugin ''b'')
          (fst (server_dogwater (ConfigArray [model_named ''user'']) (Plugin ''a'') ready_world))) =
     Some (AlreadyRegistered Adapter ''toString'')"
  by code_simp

section \<open>Scope Records\<close>

text \<open>
  Claim C9. Take any sequence of registrations from the start, failed ones included,
  and any continuation of it. The Scope Record of each realm after the continuation
  is its record before, with identities appended: nothing recorded is removed or
  reordered. And every identity in a Scope Record is a key of the collector's models.
\<close>

theorem scope_record_append_only:
  "(\<exists>more. scope_record (run h (rs @ rs') initial_world) r =
            scope_record (run h rs initial_world) r @ more) \<and>
   set (scope_record (run h rs initial_world) r) \<subseteq>
     fst ` set (models (collector (run h rs initial_world)))"
proof -
  have "sound (run h rs initial_world)" by (rule reachable_sound)
  then have "set (scope_record (run h rs initial_world) r) \<subseteq>
      fst ` set (models (collector (run h rs initial_world)))"
    by (simp add: sound_def)
  then show ?thesis using run_record_grows[of h rs' "run h rs initial_world" r]
    by (simp add: run_append)
qed

section \<open>The accessor after initialization\<close>

text \<open>
  Claim C3. Let every registration of a sequence succeed, let initialization follow, and
  let the engine produce collections keyed by the identities of the definitions loaded
  into it. Then the keys of the "all" variant are exactly the model identities of all
  the registrations, and the keys of the scoped variant for a realm are exactly the
  identities of the registrations recorded under that realm. The models of the plugin
  options are recorded under the root realm, those of \<open>server.dogwater\<close> under the
  realm of the server it is called on.
\<close>

theorem collections_after_initialization:
  assumes "list_all (\<lambda>out. out = None) (outcomes h rs initial_world)"
    and "w = initialize eng (run h rs initial_world)"
    and "orm_collections (waterline w) = Some cs"
    and "fst ` set cs = identity ` set (loaded (waterline w))"
  shows "fst ` set (collections True r w) = set (concat (map (identities_of h) rs)) \<and>
         fst ` set (collections False r w) =
           set (concat (map (identities_of h) (filter (\<lambda>reg. scope_of reg = r) rs)))"
proof -
  let ?w0 = "run h rs initial_world"
  have s: "sound ?w0" by (rule reachable_sound)
  have sc: "sound_collector (collector ?w0)" and fresh: "loaded (waterline ?w0) = []"
    and rec: "set (scope_record ?w0 r) \<subseteq> fst ` set (models (collector ?w0))"
    using s by (simp_all add: sound_def)
  have keyed: "list_all (\<lambda>(key, m). is_model m \<and> identity m = key) (models (collector ?w0))"
    and clean: "clean (models (collector ?w0))"
    using sc by (simp_all add: sound_collector_def)
  have keys: "fst ` set (models (collector ?w0)) = set (concat (map (identities_of h) rs))"
    using run_model_keys[OF sound_initial_world assms(1)]
    by (simp add: initial_world_def empty_collector_def)
  have "identity ` set (loaded (waterline w)) = fst ` set (models (collector ?w0))"
    using loaded_identities[OF keyed] fresh by (simp add: assms(2) initialize_parts)
  then have all: "fst ` set (collections True r w) = set (concat (map (identities_of h) rs))"
    using assms(3,4) keys by (simp add: collections_def)
  have recorded: "scope_record w r =
      concat (map (identities_of h) (filter (\<lambda>reg. scope_of reg = r) rs))"
    using run_record[OF assms(1), of r]
    by (simp add: assms(2) scope_record_def initialize_parts initial_world_def)
  have "''__proto__'' \<notin> fst ` set (models (collector ?w0))" using clean by (simp add: clean_def)
  then have "''__proto__'' \<notin> set (scope_record ?w0 r)" using rec by blast
  then have "''__proto__'' \<notin> set (scope_record w r)"
    by (simp add: assms(2) scope_record_def initialize_parts)
  then have "fst ` set (fold (\<lambda>id obj. js_set obj id (js_get cs id)) (scope_record w r) []) =
      set (scope_record w r)"
    by (simp add: fold_js_set_keys)
  then have "fst ` set (collections False r w) = set (scope_record w r)"
    using assms(3) by (simp add: collections_def scope_record_def)
  then show ?thesis using all recorded by simp
qed

theorem collections_after_initialization_witness:
  "list_all (\<lambda>out. out = None) (outcomes example_host two_scopes initial_world) \<and>
   fst ` set (collections True (Plugin ''a'') started_world) = {''user'', ''session'', ''product''} \<and>
   fst ` set (collections False (Plugin ''a'') started_world) = {''user'', ''session''} \<and>
   fst ` set (collections False (Plugin ''b'') started_world) = {''product''}"
proof -
  have ok: "list_all (\<lambda>out. out = None) (outcomes example_host two_scopes initial_world)"
    by code_simp
  have cs: "orm_collections (waterline started_world) =
      Some [(''user'', model_named ''user''), (''session'', model_named ''session''),
            (''product'', model_named ''product'')]"
    by code_simp
  have keyed: "fst ` set [(''user'', model_named ''user''), (''session'', model_named ''session''),
            (''product'', model_named ''product'')] =
      identity ` set (loaded (waterline started_world))"
    by code_simp
  have all: "set (concat (map (identities_of example_host) two_scopes)) =
      {''user'', ''session'', ''product''}"
    by code_simp
  have a: "set (concat (map (identities_of example_host)
      (filter (\<lambda>reg. scope_of reg = Plugin ''a'') two_scopes))) = {''user'', ''session''}"
    by code_simp
  have b: "set (concat (map (identities_of example_host)
      (filter (\<lambda>reg. scope_of reg = Plugin ''b'') two_scopes))) = {''product''}"
    by code_simp
  show ?thesis
    using collections_after_initialization[OF ok started_world_def cs keyed, of "Plugin ''a''"]
      collections_after_initialization[OF ok started_world_def cs keyed, of "Plugin ''b''"]
      ok all a b by simp
qed

end
